theory Spec2Isabelle
  imports Main "HOL-Library.Sublist"
begin

section \<open>Constants and characters of AutoProject.cpp\<close>

definition indentLevel :: nat where
  "indentLevel = 4"

definition delimLength :: nat where
  "delimLength = 3"

definition cmakeVersion :: string where
  "cmakeVersion = ''VERSION 3.1''"

abbreviation tab :: char where "tab \<equiv> CHR 0x09"
abbreviation nl :: char where "nl \<equiv> CHR 0x0A"
abbreviation dquote :: char where "dquote \<equiv> CHR 0x22"
abbreviation backtick :: char where "backtick \<equiv> CHR 0x60"
abbreviation tilde :: char where "tilde \<equiv> CHR 0x7E"

text \<open>\<open>isspace\<close> in the default C locale: space, tab, newline, vertical tab, form feed,
  carriage return.\<close>

definition isspace :: "char \<Rightarrow> bool" where
  "isspace c = (c = CHR '' '' \<or> c = tab \<or> c = nl \<or> c = CHR 0x0B \<or> c = CHR 0x0C \<or> c = CHR 0x0D)"

section \<open>Line classification\<close>

text \<open>\<open>std::string::find_first_not_of(ch)\<close>: the index of the first character other than
  \<open>ch\<close>; \<open>None\<close> stands for \<open>npos\<close>, the largest \<open>size_t\<close>.\<close>

definition find_first_not_of :: "char \<Rightarrow> string \<Rightarrow> nat option" where
  "find_first_not_of ch line =
     (if list_all (\<lambda>c. c = ch) line then None
      else Some (length (takeWhile (\<lambda>c. c = ch) line)))"

text \<open>The comparison \<open>pos >= n\<close> of the source, where \<open>npos\<close> is above every bound.\<close>

fun pos_ge :: "nat option \<Rightarrow> nat \<Rightarrow> bool" where
  "pos_ge None n = True"
| "pos_ge (Some i) n = (n \<le> i)"

definition isNonEmptyIndented :: "string \<Rightarrow> bool" where
  "isNonEmptyIndented line =
     (let indent = find_first_not_of (CHR '' '') line
      in pos_ge indent indentLevel \<and> indent \<noteq> None)"

definition isIndentedOrEmpty :: "string \<Rightarrow> bool" where
  "isIndentedOrEmpty line =
     (let indent = find_first_not_of (CHR '' '') line
      in pos_ge indent indentLevel)"

definition isEmptyOrUnderline :: "string \<Rightarrow> bool" where
  "isEmptyOrUnderline line =
     (let indent = find_first_not_of (CHR ''-'') line
      in line = [] \<or> indent = None)"

definition isDelimited :: "string \<Rightarrow> bool" where
  "isDelimited line =
     (case line of
        [] \<Rightarrow> False
      | c # _ \<Rightarrow>
          if c \<noteq> backtick \<and> c \<noteq> tilde then False
          else (let backtickDelim = find_first_not_of backtick line;
                    tildeDelim = find_first_not_of tilde line
                in pos_ge backtickDelim delimLength \<or> pos_ge tildeDelim delimLength))"

definition replaceLeadingTabs :: "string \<Rightarrow> string" where
  "replaceLeadingTabs line =
     (let tabcount = length (takeWhile (\<lambda>ch. ch = tab) line)
      in if tabcount \<noteq> 0
         then replicate (indentLevel * tabcount) (CHR '' '') @ drop tabcount line
         else line)"

section \<open>Decoration stripping and the filename test\<close>

text \<open>\<open>trim(str, ch)\<close> walks over leading characters that are \<open>ch\<close> or white space and
  erases them, unless the walk reaches the end of the string: then nothing is erased.\<close>

definition trim_ch :: "char \<Rightarrow> string \<Rightarrow> string" where
  "trim_ch ch str =
     (let rest = dropWhile (\<lambda>c. c = ch \<or> isspace c) str
      in if rest \<noteq> [] then rest else str)"

definition rtrim_ch :: "char \<Rightarrow> string \<Rightarrow> string" where
  "rtrim_ch ch str = rev (trim_ch ch (rev str))"

definition trim_pat :: "string \<Rightarrow> string \<Rightarrow> string" where
  "trim_pat pattern str =
     (if prefix pattern str then drop (length pattern) str else str)"

definition rtrim_pat :: "string \<Rightarrow> string \<Rightarrow> string" where
  "rtrim_pat pattern str =
     (if suffix pattern str then take (length str - length pattern) str else str)"

definition trimExtras :: "string \<Rightarrow> string" where
  "trimExtras line =
     (if line = [] then line
      else (let l1 = rtrim_ch (CHR ''#'') (trim_ch (CHR ''#'') line);
                l2 = rtrim_ch (CHR ''*'') (trim_ch (CHR ''*'') l1);
                l3 = rtrim_pat ''</b>'' (trim_pat ''<b>'' l2);
                l4 = rtrim_ch dquote (trim_ch dquote l3);
                l5 = rtrim_ch (CHR ''-'') l4
            in rtrim_ch (CHR '':'') l5))"

text \<open>\<open>fs::path::filename()\<close> and \<open>fs::path::extension()\<close> for POSIX paths, as
  \<open>std::filesystem\<close> defines them: the filename is what follows the last slash; the
  extension starts at the rightmost period of the filename, and there is none when the
  filename is dot or dot-dot, has no period, or has its only period in front.\<close>

definition filename :: "string \<Rightarrow> string" where
  "filename p = rev (takeWhile (\<lambda>c. c \<noteq> CHR ''/'') (rev p))"

definition extension :: "string \<Rightarrow> string" where
  "extension p =
     (let f = filename p;
          ext = CHR ''.'' # rev (takeWhile (\<lambda>c. c \<noteq> CHR ''.'') (rev f))
      in if f = ''.'' \<or> f = ''..'' \<or> CHR ''.'' \<notin> set f \<or> length ext = length f then []
         else ext)"

definition source_extensions :: "string list" where
  "source_extensions = [''.cpp'', ''.c'', ''.h'', ''.hpp'']"

definition isSourceExtension :: "string \<Rightarrow> bool" where
  "isSourceExtension ext = (ext \<in> set source_extensions)"

text \<open>\<open>isSourceFilename\<close> strips its argument in place: the model returns the verdict and
  the stripped line, which the caller stores back.\<close>

definition isSourceFilename :: "string \<Rightarrow> bool \<times> string" where
  "isSourceFilename line =
     (let line' = trimExtras line
      in (isSourceExtension (extension line'), line'))"

section \<open>The rule matcher\<close>

text \<open>The patterns of the rule table use four constructs of ECMAScript regular
  expressions: a literal character, the period (any character but a line terminator),
  \<open>\s*\<close> and an optional literal group \<open>(...)?\<close>.\<close>

datatype re = Lit char | Dot | WsStar | Opt string

fun strip_prefix :: "string \<Rightarrow> string \<Rightarrow> string option" where
  "strip_prefix [] s = Some s"
| "strip_prefix (p # ps) [] = None"
| "strip_prefix (p # ps) (c # cs) = (if p = c then strip_prefix ps cs else None)"

fun match_here :: "re list \<Rightarrow> string \<Rightarrow> bool" where
  "match_here [] s = True"
| "match_here (Lit c # r) s =
     (case s of [] \<Rightarrow> False | x # xs \<Rightarrow> x = c \<and> match_here r xs)"
| "match_here (Dot # r) s =
     (case s of [] \<Rightarrow> False | x # xs \<Rightarrow> x \<noteq> nl \<and> x \<noteq> CHR 0x0D \<and> match_here r xs)"
| "match_here (WsStar # r) s =
     (match_here r s \<or>
      (case s of [] \<Rightarrow> False | x # xs \<Rightarrow> isspace x \<and> match_here (WsStar # r) xs))"
| "match_here (Opt p # r) s =
     ((case strip_prefix p s of None \<Rightarrow> False | Some t \<Rightarrow> match_here r t) \<or> match_here r s)"

text \<open>\<open>std::regex_search\<close>: the pattern matches starting at some position of the line.\<close>

fun regex_search :: "re list \<Rightarrow> string \<Rightarrow> bool" where
  "regex_search r [] = match_here r []"
| "regex_search r (c # cs) = (match_here r (c # cs) \<or> regex_search r cs)"

definition pat :: "string \<Rightarrow> re list" where
  "pat s = map (\<lambda>c. if c = CHR ''.'' then Dot else Lit c) s"

text \<open>Every pattern of the table has the shape \<open>\s*#include\s*<...>\<close>.\<close>

definition include_re :: "re list \<Rightarrow> re list" where
  "include_re header = WsStar # pat ''#include'' @ WsStar # Lit (CHR ''<'') # header @ [Lit (CHR ''>'')]"

definition unlines :: "string list \<Rightarrow> string" where
  "unlines ls = concat (map (\<lambda>l. l @ [nl]) ls)"

datatype rule = Rule (rule_re: "re list") (rule_cmake: string) (rule_libraries: string)

definition rules :: "rule list" where
  "rules =
    [ Rule (include_re (Opt ''experimental/'' # pat ''filesystem'')) [] ''stdc++fs'',
      Rule (include_re (pat ''thread'')) (unlines [''find_package(Threads REQUIRED)''])
        ''${CMAKE_THREAD_LIBS_INIT}'',
      Rule (include_re (pat ''future'')) (unlines [''find_package(Threads REQUIRED)''])
        ''${CMAKE_THREAD_LIBS_INIT}'',
      Rule (include_re (pat ''SFML/Graphics.hpp''))
        (unlines [''find_package(SFML REQUIRED COMPONENTS System Window Graphics)'',
                  ''include_directories(${SFML_INCLUDE_DIR})''])
        ''${SFML_LIBRARIES}'',
      Rule (include_re (pat ''GL/glew.h'')) (unlines [''find_package(GLEW REQUIRED)''])
        ''${GLEW_LIBRARIES}'',
      Rule (include_re (pat ''GL/glut.h''))
        (unlines [''find_package(GLUT REQUIRED)'', ''find_package(OpenGL REQUIRED)''])
        ''${OPENGL_LIBRARIES} ${GLUT_LIBRARIES}'',
      Rule (include_re (pat ''OpenGL/gl.h'')) (unlines [''find_package(OpenGL REQUIRED)''])
        ''${OPENGL_LIBRARIES}'',
      Rule (include_re (pat ''SDL2/SDL.h'')) (unlines [''find_package(SDL2 REQUIRED)''])
        ''${SDL2_LIBRARIES}'',
      Rule (include_re (pat ''SDL2/SDL_ttf.h'')) (unlines [''find_package(SDL2_ttf REQUIRED)''])
        ''${SDL2_TTF_LIBRARIES}'',
      Rule (include_re (pat ''GLFW/glfw3.h'')) (unlines [''find_package(glfw3 REQUIRED)''])
        ''glfw'',
      Rule (include_re (pat ''boost/regex.hpp''))
        (unlines [''find_package(Boost REQUIRED COMPONENTS regex)''])
        ''${Boost_LIBRARIES}'',
      Rule (include_re (pat ''png.h'')) (unlines [''find_package(PNG REQUIRED)''])
        ''${PNG_LIBRARIES}'',
      Rule (include_re (pat ''ncurses.h'')) (unlines [''find_package(Curses REQUIRED)''])
        ''${CURSES_LIBRARIES}'',
      Rule (include_re (pat ''SDL2.SDL.h''))
        (unlines [''include(FindPkgConfig)'', ''PKG_SEARCH_MODULE(SDL2 REQUIRED sdl2)'',
                  ''INCLUDE_DIRECTORIES(${SDL2_INCLUDE_DIRS})''])
        ''${SDL2_LIBRARIES}'',
      Rule (include_re (pat ''QString''))
        (unlines [''find_package(Qt5Widgets)'', ''set(CMAKE_AUTOMOC ON)'',
                  ''set(CMAKE_AUTOUIC ON)'', ''set(CMAKE_INCLUDE_CURRENT_DIR ON)''])
        ''Qt5::Widgets'',
      Rule (include_re (pat ''openssl/ssl.h'')) (unlines [''find_package(OpenSSL REQUIRED)''])
        ''${OPENSSL_LIBRARIES}'' ]"

section \<open>The file system and the scanner state\<close>

datatype error = AlreadyExists | CannotCreateDirectory | FilesystemError

datatype dir = SrcDir | BuildDir

text \<open>What \<open>createProject\<close> sees of the file system: whether the project root, its
  \<open>src\<close> and its \<open>build\<close> directory exist, the files below \<open>src\<close> (keyed by the path
  that is appended to \<open>srcdir\<close>, holding their bytes), the top-level \<open>CMakeLists.txt\<close>,
  the copy of the input document (as the lines read from it), and what the environment
  lets the program create and open.\<close>

record filesystem =
  root_exists :: bool
  src_exists :: bool
  build_exists :: bool
  files :: "string \<rightharpoonup> string"
  top_cmake :: "string option"
  md_copy :: "string list option"
  can_mkdir :: "dir \<Rightarrow> bool"
  can_open :: "string \<Rightarrow> bool"
  can_open_top :: bool

text \<open>Modelled from the spec: the data members of class AutoProject and the namespace
  alias \<open>fs\<close> are declared in AutoProject.h, which is not among the sources. The three
  accumulated containers (\<open>srcnames\<close>, \<open>extraRules\<close>, \<open>libraries\<close>) are sets of
  distinct entries (``set semantics, not list semantics''); the model keeps each as a
  list in order of first insertion, which is also the order in which it is iterated.
  \<open>fs\<close> is taken to be \<open>std::filesystem\<close>, and the entries of \<open>srcnames\<close> to be
  paths, as the iterator over \<open>fs::path\<close> in the output operator suggests.\<close>

definition emplace :: "'a \<Rightarrow> 'a list \<Rightarrow> 'a list" where
  "emplace x xs = (if x \<in> set xs then xs else xs @ [x])"

text \<open>The members of the object together with the locals of \<open>createProject\<close>;
  \<open>srcfile\<close> is the one output stream, \<open>None\<close> when it is closed.\<close>

record scan =
  projname :: string
  prevline :: string
  inIndentedFile :: bool
  inDelimitedFile :: bool
  firstFile :: bool
  srcfile :: "string option"
  srcnames :: "string list"
  extraRules :: "string list"
  libraries :: "string list"
  fsys :: filesystem

definition init :: "string \<Rightarrow> filesystem \<Rightarrow> scan" where
  "init pname f =
     \<lparr> projname = pname, prevline = [], inIndentedFile = False, inDelimitedFile = False,
       firstFile = True, srcfile = None, srcnames = [], extraRules = [], libraries = [],
       fsys = f \<rparr>"

definition checkRules :: "string \<Rightarrow> scan \<Rightarrow> scan" where
  "checkRules line s =
     fold (\<lambda>rule s. if regex_search (rule_re rule) line
                     then s\<lparr> extraRules := emplace (rule_cmake rule) (extraRules s),
                             libraries := emplace (rule_libraries rule) (libraries s) \<rparr>
                     else s) rules s"

text \<open>\<open>fs::exists\<close> and \<open>fs::create_directories\<close>: the latter answers false when the
  directory is already there, and throws when the system refuses.\<close>

definition makeTree :: "bool \<Rightarrow> filesystem \<Rightarrow> (error \<times> filesystem) + filesystem" where
  "makeTree overwrite f =
     (if root_exists f \<and> \<not> overwrite then Inl (AlreadyExists, f)
      else if src_exists f then Inl (CannotCreateDirectory, f)
      else if \<not> can_mkdir f SrcDir then Inl (FilesystemError, f)
      else (let f1 = f\<lparr> root_exists := True, src_exists := True \<rparr>
            in if build_exists f1 then Inr f1
               else if \<not> can_mkdir f1 BuildDir then Inl (FilesystemError, f1)
               else Inr (f1\<lparr> build_exists := True \<rparr>)))"

text \<open>The guarded call \<open>if (firstFile) { makeTree(overwrite); firstFile = false; }\<close>.\<close>

definition firstTree :: "bool \<Rightarrow> scan \<Rightarrow> (error \<times> filesystem) + scan" where
  "firstTree overwrite s =
     (if firstFile s
      then (case makeTree overwrite (fsys s) of
              Inl e \<Rightarrow> Inl e
            | Inr f \<Rightarrow> Inr (s\<lparr> firstFile := False, fsys := f \<rparr>))
      else Inr s)"

text \<open>\<open>srcfile.open(srcfilename)\<close> followed by the test \<open>if (srcfile)\<close>: opening
  creates or truncates the file; it fails on a stream that is already open and where
  the environment refuses.\<close>

definition open_srcfile :: "string \<Rightarrow> scan \<Rightarrow> bool \<times> scan" where
  "open_srcfile p s =
     (if srcfile s = None \<and> can_open (fsys s) p
      then (True, s\<lparr> srcfile := Some p,
                      fsys := (fsys s)\<lparr> files := (files (fsys s))(p \<mapsto> []) \<rparr> \<rparr>)
      else (False, s))"

definition close_srcfile :: "scan \<Rightarrow> scan" where
  "close_srcfile s = s\<lparr> srcfile := None \<rparr>"

definition write_out :: "string \<Rightarrow> scan \<Rightarrow> scan" where
  "write_out txt s =
     (case srcfile s of
        None \<Rightarrow> s
      | Some p \<Rightarrow>
          s\<lparr> fsys := (fsys s)\<lparr> files := (files (fsys s))
                  (p \<mapsto> (case files (fsys s) p of None \<Rightarrow> txt | Some old \<Rightarrow> old @ txt)) \<rparr> \<rparr>)"

definition emit_text :: "string \<Rightarrow> string" where
  "emit_text line =
     (if length line < indentLevel then line
      else if hd line = CHR '' '' then drop indentLevel line else drop 1 line)"

definition emit :: "string \<Rightarrow> scan \<Rightarrow> scan" where
  "emit line s = write_out (emit_text line @ [nl]) s"

definition emitVerbatim :: "string \<Rightarrow> scan \<Rightarrow> scan" where
  "emitVerbatim line s = write_out (line @ [nl]) s"

section \<open>createProject\<close>

text \<open>The two places where an indented line opens a block share their tail: open the
  file and, when that worked, match the rules, write the line, record the name.\<close>

definition open_indented :: "string \<Rightarrow> string \<Rightarrow> scan \<Rightarrow> scan" where
  "open_indented srcfilename line s =
     (case open_srcfile srcfilename s of
        (True, s1) \<Rightarrow>
          (emit line (checkRules line s1))
            \<lparr> inIndentedFile := True,
              srcnames := emplace (filename srcfilename) (srcnames s1) \<rparr>
      | (False, s1) \<Rightarrow> s1)"

definition open_delimited :: "string \<Rightarrow> scan \<Rightarrow> scan" where
  "open_delimited srcfilename s =
     (case open_srcfile srcfilename s of
        (True, s1) \<Rightarrow>
          s1\<lparr> inDelimitedFile := True,
              srcnames := emplace (filename srcfilename) (srcnames s1) \<rparr>
      | (False, s1) \<Rightarrow> s1)"

text \<open>One iteration of the loop over the lines of the document.\<close>

definition step :: "bool \<Rightarrow> scan \<Rightarrow> string \<Rightarrow> (error \<times> filesystem) + scan" where
  "step overwrite s line0 =
     (let line = replaceLeadingTabs line0 in
      if inIndentedFile s then
        (if \<not> isIndentedOrEmpty line
         then Inr ((close_srcfile (s\<lparr> prevline := line \<rparr>))\<lparr> inIndentedFile := False \<rparr>)
         else Inr (emit line (checkRules line s)))
      else if inDelimitedFile s then
        (if isDelimited line
         then Inr ((close_srcfile (s\<lparr> prevline := line \<rparr>))\<lparr> inDelimitedFile := False \<rparr>)
         else Inr (emitVerbatim line (checkRules line s)))
      else if isDelimited line then
        (case isSourceFilename (prevline s) of
           (named, prev) \<Rightarrow>
             (case firstTree overwrite (s\<lparr> prevline := prev \<rparr>) of
                Inl e \<Rightarrow> Inl e
              | Inr s1 \<Rightarrow> Inr (open_delimited (if named then prev else ''main.cpp'') s1)))
      else if isNonEmptyIndented line then
        (case isSourceFilename (prevline s) of
           (named, prev) \<Rightarrow>
             (let s0 = s\<lparr> prevline := prev \<rparr> in
              if named then
                (case firstTree overwrite s0 of
                   Inl e \<Rightarrow> Inl e
                 | Inr s1 \<Rightarrow> Inr (open_indented prev line s1))
              else if firstFile s0 \<and> line \<noteq> [] then
                (case firstTree overwrite s0 of
                   Inl e \<Rightarrow> Inl e
                 | Inr s1 \<Rightarrow> Inr (open_indented ''main.cpp'' line s1))
              else Inr s0))
      else Inr (if \<not> isEmptyOrUnderline line then s\<lparr> prevline := line \<rparr> else s))"

fun run :: "bool \<Rightarrow> scan \<Rightarrow> string list \<Rightarrow> (error \<times> filesystem) + scan" where
  "run overwrite s [] = Inr s"
| "run overwrite s (line # rest) =
     (case step overwrite s line of
        Inl e \<Rightarrow> Inl e
      | Inr s' \<Rightarrow> run overwrite s' rest)"

text \<open>The inserter of \<open>fs::path\<close> writes the name between double quotes, escaping
  quotes and backslashes.\<close>

definition path_out :: "string \<Rightarrow> string" where
  "path_out fn =
     dquote # concat (map (\<lambda>c. if c = dquote \<or> c = CHR 0x5C then [CHR 0x5C, c] else [c]) fn)
       @ [dquote]"

definition srcLevelText :: "string \<Rightarrow> string list \<Rightarrow> string list \<Rightarrow> string list \<Rightarrow> string" where
  "srcLevelText pname snippets names libs =
     ''cmake_minimum_required('' @ cmakeVersion @ '')'' @ [nl] @
     ''set(EXECUTABLE_NAME '' @ [dquote] @ pname @ [dquote] @ '')'' @ [nl] @
     concat (map (\<lambda>rule. rule @ [nl]) snippets) @
     ''add_executable(${EXECUTABLE_NAME}'' @
     concat (map (\<lambda>fn. CHR '' '' # path_out fn) names) @
     '')'' @ [nl] @ ''target_link_libraries(${EXECUTABLE_NAME} '' @
     concat (map (\<lambda>lib. lib @ '' '') libs) @
     '')'' @ [nl]"

definition writeSrcLevel :: "scan \<Rightarrow> scan" where
  "writeSrcLevel s =
     (if can_open (fsys s) ''CMakeLists.txt''
      then s\<lparr> fsys := (fsys s)\<lparr> files := (files (fsys s))
               (''CMakeLists.txt'' \<mapsto>
                  srcLevelText (projname s) (extraRules s) (srcnames s) (libraries s)) \<rparr> \<rparr>
      else s)"

definition topLevelText :: "string \<Rightarrow> string" where
  "topLevelText pname =
     ''cmake_minimum_required('' @ cmakeVersion @ '')'' @ [nl] @
     ''project('' @ pname @ '')'' @ [nl] @
     ''set(CMAKE_CXX_STANDARD 14)'' @ [nl] @
     ''set(CMAKE_CXX_FLAGS '' @ [dquote] @ ''${CMAKE_CXX_FLAGS} -Wall -Wextra -pedantic''
        @ [dquote] @ '')'' @ [nl] @
     ''add_subdirectory(src)'' @ [nl]"

definition writeTopLevel :: "scan \<Rightarrow> scan" where
  "writeTopLevel s =
     (if can_open_top (fsys s)
      then s\<lparr> fsys := (fsys s)\<lparr> top_cmake := Some (topLevelText (projname s)) \<rparr> \<rparr>
      else s)"

text \<open>\<open>fs::copy_file\<close> with its default options throws when the target exists.\<close>

definition copy_md :: "string list \<Rightarrow> filesystem \<Rightarrow> (error \<times> filesystem) + filesystem" where
  "copy_md doc f =
     (if md_copy f \<noteq> None then Inl (FilesystemError, f)
      else Inr (f\<lparr> md_copy := Some doc \<rparr>))"

text \<open>What follows the loop: the configuration files and the copy when a name was
  recorded, and the answer. The output stream is closed when the function is left.\<close>

definition finish :: "string list \<Rightarrow> scan \<Rightarrow> (error \<times> filesystem) + (bool \<times> scan)" where
  "finish doc s =
     (if srcnames s \<noteq> []
      then (let s1 = writeTopLevel (writeSrcLevel s)
            in case copy_md doc (fsys s1) of
                 Inl e \<Rightarrow> Inl e
               | Inr f \<Rightarrow> Inr (True, close_srcfile (s1\<lparr> fsys := f \<rparr>)))
      else Inr (False, close_srcfile s))"

text \<open>\<open>createProject\<close> on a freshly constructed object for project \<open>pname\<close> whose
  input stream yields the lines \<open>doc\<close>.\<close>

definition createProject ::
    "bool \<Rightarrow> string \<Rightarrow> string list \<Rightarrow> filesystem \<Rightarrow> (error \<times> filesystem) + (bool \<times> scan)" where
  "createProject overwrite pname doc f =
     (case run overwrite (init pname f) doc of
        Inl e \<Rightarrow> Inl e
      | Inr s \<Rightarrow> finish doc s)"

text \<open>A file system on which nothing of the project exists and everything is allowed.\<close>

definition fresh :: filesystem where
  "fresh = \<lparr> root_exists = False, src_exists = False, build_exists = False,
             files = Map.empty, top_cmake = None, md_copy = None,
             can_mkdir = (\<lambda>_. True), can_open = (\<lambda>_. True), can_open_top = True \<rparr>"

section \<open>Notions used to state the properties\<close>

text \<open>What one line adds to the accumulated snippets and libraries.\<close>

definition new_snippets :: "string \<Rightarrow> string list \<Rightarrow> string list" where
  "new_snippets line xs =
     fold (\<lambda>rule xs. if regex_search (rule_re rule) line then emplace (rule_cmake rule) xs else xs)
       rules xs"

definition new_libraries :: "string \<Rightarrow> string list \<Rightarrow> string list" where
  "new_libraries line xs =
     fold (\<lambda>rule xs. if regex_search (rule_re rule) line then emplace (rule_libraries rule) xs else xs)
       rules xs"

text \<open>A line that opens no block when it is read outside of one: after tab replacement
  it is neither a delimiter line nor a non-empty indented line.\<close>

definition quiet :: "string \<Rightarrow> bool" where
  "quiet l = (\<not> isDelimited (replaceLeadingTabs l) \<and> \<not> isNonEmptyIndented (replaceLeadingTabs l))"

text \<open>The caption candidate after a quiet line has been read.\<close>

definition remember :: "string \<Rightarrow> string \<Rightarrow> string" where
  "remember l p = (if isEmptyOrUnderline (replaceLeadingTabs l) then p else replaceLeadingTabs l)"

text \<open>The shortest fence of backticks.\<close>

abbreviation fence3 :: string where
  "fence3 \<equiv> [backtick, backtick, backtick]"

text \<open>At most one block is open, and the output stream is open exactly inside a block.\<close>

definition one_block :: "scan \<Rightarrow> bool" where
  "one_block s =
     (\<not> (inIndentedFile s \<and> inDelimitedFile s) \<and>
      ((srcfile s \<noteq> None) = (inIndentedFile s \<or> inDelimitedFile s)))"

text \<open>Once the guarded call of \<open>makeTree\<close> has been passed the project root exists,
  and a name is only recorded after that.\<close>

definition tree_made :: "scan \<Rightarrow> bool" where
  "tree_made s = ((\<not> firstFile s \<longrightarrow> root_exists (fsys s)) \<and> (srcnames s \<noteq> [] \<longrightarrow> \<not> firstFile s))"




text \<open>A fence in the words of the specification: the line starts with a run of at
  least three backticks or of at least three tildes.\<close>

definition fence_line :: "string \<Rightarrow> bool" where
  "fence_line l =
     (delimLength \<le> length (takeWhile (\<lambda>c. c = backtick) l) \<or>
      delimLength \<le> length (takeWhile (\<lambda>c. c = tilde) l))"

text \<open>A line that consists of one or two backticks, or of one or two tildes, and nothing
  else: no fence, but \<open>isDelimited\<close> accepts it.\<close>

definition short_fence :: "string \<Rightarrow> bool" where
  "short_fence l =
     (l \<noteq> [] \<and> length l < delimLength \<and>
      (list_all (\<lambda>c. c = backtick) l \<or> list_all (\<lambda>c. c = tilde) l))"

text \<open>A line that is no fence, no such short line, and not a non-empty indented line
  (leading tabs counting as four spaces each).\<close>

definition plain :: "string \<Rightarrow> bool" where
  "plain l = (\<not> fence_line l \<and> \<not> short_fence l \<and> \<not> isNonEmptyIndented (replaceLeadingTabs l))"


section \<open>Facts about lines, names and containers\<close>

lemma trimExtras_Nil: "trimExtras [] = []"
  by (simp add: trimExtras_def)



lemma isSourceFilename_fst:
  "fst (isSourceFilename line) = (extension (trimExtras line) \<in> set source_extensions)"
  by (simp add: isSourceFilename_def Let_def isSourceExtension_def)

lemma isDelimited_no_tab:
  assumes "isDelimited (replaceLeadingTabs line)"
  shows "replaceLeadingTabs line = line"
proof (cases line)
  case Nil
  then show ?thesis by (simp add: replaceLeadingTabs_def)
next
  case (Cons c cs)
  show ?thesis
  proof (cases "c = tab")
    case True
    have "replicate (4 + k) (CHR '' '') = CHR '' '' # replicate (3 + k) (CHR '' '')" for k
      by (simp add: numeral_eq_Suc)
    with Cons True obtain r where "replaceLeadingTabs line = CHR '' '' # r"
      by (simp add: replaceLeadingTabs_def Let_def indentLevel_def)
    with assms show ?thesis by (simp add: isDelimited_def)
  next
    case False
    with Cons show ?thesis by (simp add: replaceLeadingTabs_def)
  qed
qed

lemma fence_isDelimited:
  assumes "delimLength \<le> n" and "c = backtick \<or> c = tilde"
  shows "isDelimited (replicate n c @ rest)"
proof -
  from assms(1) obtain m where n: "n = Suc m" by (cases n) (auto simp: delimLength_def)
  have "takeWhile (\<lambda>a. a = c) (replicate n c @ rest) = replicate n c @ takeWhile (\<lambda>a. a = c) rest"
    by (induction n) auto
  then have "pos_ge (find_first_not_of c (replicate n c @ rest)) delimLength"
    using assms(1) by (simp add: find_first_not_of_def)
  with assms(2) show ?thesis
    by (auto simp: isDelimited_def n Let_def)
qed

lemma isNonEmptyIndented_not_Nil: "isNonEmptyIndented l \<Longrightarrow> l \<noteq> []"
  by (auto simp: isNonEmptyIndented_def find_first_not_of_def)

lemma trim_ch_replicate: "trim_ch ch (replicate n c) = replicate n c"
  by (simp add: trim_ch_def Let_def dropWhile_replicate)

lemma rtrim_ch_replicate: "rtrim_ch ch (replicate n c) = replicate n c"
  by (simp add: rtrim_ch_def trim_ch_replicate)

lemma underline_not_source:
  assumes "isEmptyOrUnderline l"
  shows "\<not> fst (isSourceFilename l)"
proof -
  from assms have "list_all (\<lambda>c. c = CHR ''-'') l"
    by (auto simp: isEmptyOrUnderline_def find_first_not_of_def split: if_splits)
  then have l: "l = replicate (length l) (CHR ''-'')"
    by (induction l) auto
  have np: "\<not> prefix ''<b>'' (replicate n (CHR ''-''))" for n
    by (cases n) auto
  have ns: "\<not> suffix ''</b>'' (replicate n (CHR ''-''))" for n
    using set_mono_suffix[of "''</b>''" "replicate n (CHR ''-'')"] by auto
  have t: "trimExtras (replicate n (CHR ''-'')) = replicate n (CHR ''-'')" for n
    by (simp add: trimExtras_def Let_def trim_ch_replicate rtrim_ch_replicate
          trim_pat_def rtrim_pat_def np ns del: replicate_eq_replicate)
  have "extension (replicate n (CHR ''-'')) = []" for n
    by (simp add: extension_def Let_def filename_def)
  then have "\<not> fst (isSourceFilename (replicate n (CHR ''-'')))" for n
    by (simp add: isSourceFilename_fst t source_extensions_def)
  with l show ?thesis by metis
qed

lemma remember_caption:
  assumes "fst (isSourceFilename (replaceLeadingTabs caption))"
  shows "fold remember (pre @ [caption]) p = replaceLeadingTabs caption"
  using underline_not_source[of "replaceLeadingTabs caption"] assms
  by (auto simp: remember_def)

lemma source_name_not_cmake:
  assumes "fst (isSourceFilename l)"
  shows "trimExtras l \<noteq> ''CMakeLists.txt''"
proof
  assume "trimExtras l = ''CMakeLists.txt''"
  with assms have "extension ''CMakeLists.txt'' \<in> set source_extensions"
    by (simp add: isSourceFilename_fst)
  then show False
    by (simp add: extension_def filename_def source_extensions_def)
qed

lemma replaceLeadingTabs_no_tab: "l = [] \<or> hd l \<noteq> tab \<Longrightarrow> replaceLeadingTabs l = l"
  by (cases l) (auto simp: replaceLeadingTabs_def)

lemma indented_spaces:
  assumes "isIndentedOrEmpty l" and "indentLevel \<le> length l"
  shows "take indentLevel l = replicate indentLevel (CHR '' '')"
proof -
  let ?t = "takeWhile (\<lambda>c. c = CHR '' '') l"
  have len: "indentLevel \<le> length ?t"
  proof (cases "list_all (\<lambda>c. c = CHR '' '') l")
    case True
    then have "\<forall>x \<in> set l. x = CHR '' ''" by (simp add: list_all_iff)
    then have "?t = l" by (rule takeWhile_eq_all_conv[THEN iffD2])
    with assms(2) show ?thesis by (simp only:)
  next
    case False
    with assms(1) show ?thesis
      by (simp add: isIndentedOrEmpty_def find_first_not_of_def)
  qed
  have t: "?t = replicate (length ?t) (CHR '' '')"
    by (rule replicate_length_same[symmetric]) (auto dest: set_takeWhileD)
  have "l = ?t @ dropWhile (\<lambda>c. c = CHR '' '') l" by simp
  then have "take indentLevel l = take indentLevel ?t"
    using len by (metis take_append diff_is_0_eq take_0 append_Nil2)
  also have "\<dots> = take indentLevel (replicate (length ?t) (CHR '' ''))"
    using t by simp
  also have "\<dots> = replicate indentLevel (CHR '' '')"
    using len by (simp add: min_def)
  finally show ?thesis .
qed

lemma emit_text_indented:
  assumes "isIndentedOrEmpty l"
  shows "emit_text l = (if length l < indentLevel then l else drop indentLevel l)"
proof (cases "length l < indentLevel")
  case True
  then show ?thesis by (simp add: emit_text_def)
next
  case False
  then have "indentLevel \<le> length l" by simp
  from indented_spaces[OF assms this] have "hd (take indentLevel l) = CHR '' ''"
    by (simp add: indentLevel_def numeral_eq_Suc)
  then have "hd l = CHR '' ''" by (simp add: indentLevel_def)
  with False show ?thesis by (simp add: emit_text_def)
qed

lemma nonEmptyIndented_indented: "isNonEmptyIndented l \<Longrightarrow> isIndentedOrEmpty l"
  by (simp add: isNonEmptyIndented_def isIndentedOrEmpty_def Let_def)

lemma nonEmptyIndented_not_delimited:
  assumes "isNonEmptyIndented l"
  shows "\<not> isDelimited l"
proof -
  from assms have "indentLevel \<le> length (takeWhile (\<lambda>c. c = CHR '' '') l)"
    by (auto simp: isNonEmptyIndented_def find_first_not_of_def Let_def split: if_splits)
  then obtain cs where "l = CHR '' '' # cs"
    by (cases l) (auto simp: indentLevel_def split: if_splits)
  then show ?thesis by (simp add: isDelimited_def)
qed














lemma takeWhile_all: "list_all P l \<Longrightarrow> takeWhile P l = l"
  by (simp add: list_all_iff takeWhile_eq_all_conv[THEN iffD2])

lemma isDelimited_backtick:
  "isDelimited (backtick # cs) =
     (list_all (\<lambda>x. x = backtick) cs \<or>
      delimLength \<le> Suc (length (takeWhile (\<lambda>x. x = backtick) cs)))"
  by (simp add: isDelimited_def find_first_not_of_def Let_def delimLength_def)

lemma isDelimited_tilde:
  "isDelimited (tilde # cs) =
     (list_all (\<lambda>x. x = tilde) cs \<or>
      delimLength \<le> Suc (length (takeWhile (\<lambda>x. x = tilde) cs)))"
  by (simp add: isDelimited_def find_first_not_of_def Let_def delimLength_def)

lemma fence_spec_backtick:
  "(fence_line (backtick # cs) \<or> short_fence (backtick # cs)) =
     (list_all (\<lambda>x. x = backtick) cs \<or>
      delimLength \<le> Suc (length (takeWhile (\<lambda>x. x = backtick) cs)))"
proof (cases "list_all (\<lambda>x. x = backtick) cs")
  case True
  then have h: "takeWhile (\<lambda>x. x = backtick) cs = cs" by (rule takeWhile_all)
  from True show ?thesis
    by (simp add: fence_line_def short_fence_def delimLength_def h) arith
next
  case False
  then show ?thesis
    by (simp add: fence_line_def short_fence_def delimLength_def)
qed

lemma fence_spec_tilde:
  "(fence_line (tilde # cs) \<or> short_fence (tilde # cs)) =
     (list_all (\<lambda>x. x = tilde) cs \<or>
      delimLength \<le> Suc (length (takeWhile (\<lambda>x. x = tilde) cs)))"
proof (cases "list_all (\<lambda>x. x = tilde) cs")
  case True
  then have h: "takeWhile (\<lambda>x. x = tilde) cs = cs" by (rule takeWhile_all)
  from True show ?thesis
    by (simp add: fence_line_def short_fence_def delimLength_def h) arith
next
  case False
  then show ?thesis
    by (simp add: fence_line_def short_fence_def delimLength_def)
qed

lemma isDelimited_spec: "isDelimited l = (fence_line l \<or> short_fence l)"
proof (cases l)
  case Nil
  then show ?thesis
    by (simp add: isDelimited_def fence_line_def short_fence_def delimLength_def)
next
  case (Cons c cs)
  consider (b) "c = backtick" | (t) "c = tilde" | (o) "c \<noteq> backtick" "c \<noteq> tilde" by blast
  then show ?thesis
  proof cases
    case o
    with Cons show ?thesis
      by (simp add: isDelimited_def fence_line_def short_fence_def delimLength_def)
  next
    case b
    with Cons show ?thesis by (simp only: isDelimited_backtick fence_spec_backtick)
  next
    case t
    with Cons show ?thesis by (simp only: isDelimited_tilde fence_spec_tilde)
  qed
qed

lemma isDelimited_tabs: "isDelimited (replaceLeadingTabs l) = isDelimited l"
proof
  assume "isDelimited (replaceLeadingTabs l)"
  then show "isDelimited l" using isDelimited_no_tab[of l] by simp
next
  assume d: "isDelimited l"
  then have "l = [] \<or> hd l \<noteq> tab"
    by (cases l) (auto simp: isDelimited_def split: if_splits)
  then have "replaceLeadingTabs l = l" by (rule replaceLeadingTabs_no_tab)
  with d show "isDelimited (replaceLeadingTabs l)" by simp
qed

lemma isDelimited_tabs_spec:
  "isDelimited (replaceLeadingTabs l) = (fence_line l \<or> short_fence l)"
  by (subst isDelimited_tabs) (rule isDelimited_spec)

lemma plain_quiet: "plain l = quiet l"
  by (simp add: plain_def quiet_def isDelimited_tabs_spec)

lemma fence_line_delimited: "fence_line l \<Longrightarrow> isDelimited (replaceLeadingTabs l)"
  by (simp add: isDelimited_tabs_spec)

lemma not_fence_not_delimited:
  "\<not> fence_line l \<Longrightarrow> \<not> short_fence l \<Longrightarrow> \<not> isDelimited (replaceLeadingTabs l)"
  by (simp add: isDelimited_tabs_spec)

lemma filename_no_slash:
  assumes "CHR ''/'' \<notin> set p"
  shows "filename p = p"
proof -
  from assms have "\<forall>x \<in> set (rev p). x \<noteq> CHR ''/''" by auto
  then have h: "takeWhile (\<lambda>c. c \<noteq> CHR ''/'') (rev p) = rev p"
    by (rule takeWhile_eq_all_conv[THEN iffD2])
  show ?thesis by (simp only: filename_def h rev_rev_ident)
qed


lemma plain_all_quiet: "list_all plain ls \<Longrightarrow> list_all quiet ls"
  by (simp add: list_all_iff plain_quiet)

lemma body_not_delimited:
  "list_all (\<lambda>l. \<not> fence_line l \<and> \<not> short_fence l) body \<Longrightarrow>
   list_all (\<lambda>l. \<not> isDelimited (replaceLeadingTabs l)) body"
  by (simp add: list_all_iff isDelimited_tabs_spec)




section \<open>Facts about the scanner\<close>

lemma run_append:
  "run ow s (xs @ ys) = (case run ow s xs of Inl e \<Rightarrow> Inl e | Inr s' \<Rightarrow> run ow s' ys)"
  by (induction xs arbitrary: s) (auto split: sum.splits)

lemma fold_rules_eq:
  "fold (\<lambda>rule s. if regex_search (rule_re rule) line
                     then s\<lparr> extraRules := emplace (rule_cmake rule) (extraRules s),
                             libraries := emplace (rule_libraries rule) (libraries s) \<rparr>
                     else s) rs s =
   s\<lparr> extraRules := fold (\<lambda>rule xs. if regex_search (rule_re rule) line then emplace (rule_cmake rule) xs else xs) rs (extraRules s),
      libraries := fold (\<lambda>rule xs. if regex_search (rule_re rule) line then emplace (rule_libraries rule) xs else xs) rs (libraries s) \<rparr>"
  by (induction rs arbitrary: s) simp_all

lemma checkRules_eq:
  "checkRules line s =
     s\<lparr> extraRules := new_snippets line (extraRules s),
        libraries := new_libraries line (libraries s) \<rparr>"
  unfolding checkRules_def new_snippets_def new_libraries_def by (rule fold_rules_eq)

lemma fold_write_check:
  assumes "srcfile s = Some p" and "files (fsys s) p = Some old"
  shows "fold (\<lambda>l s. write_out (g l @ [nl]) (checkRules l s)) ls s =
     s\<lparr> extraRules := fold new_snippets ls (extraRules s),
        libraries := fold new_libraries ls (libraries s),
        fsys := (fsys s)\<lparr> files := (files (fsys s))(p \<mapsto> old @ unlines (map g ls)) \<rparr> \<rparr>"
  using assms
proof (induction ls arbitrary: s old)
  case Nil
  then show ?case by (simp add: unlines_def map_upd_triv)
next
  case (Cons a ls)
  let ?s1 = "write_out (g a @ [nl]) (checkRules a s)"
  have s1: "?s1 = s\<lparr> extraRules := new_snippets a (extraRules s),
        libraries := new_libraries a (libraries s),
        fsys := (fsys s)\<lparr> files := (files (fsys s))(p \<mapsto> old @ g a @ [nl]) \<rparr> \<rparr>"
    using Cons.prems by (simp add: checkRules_eq write_out_def)
  have "srcfile ?s1 = Some p" "files (fsys ?s1) p = Some (old @ g a @ [nl])"
    using Cons.prems by (simp_all add: s1)
  from Cons.IH[OF this]
  have "fold (\<lambda>l s. write_out (g l @ [nl]) (checkRules l s)) ls ?s1 =
     ?s1\<lparr> extraRules := fold new_snippets ls (extraRules ?s1),
        libraries := fold new_libraries ls (libraries ?s1),
        fsys := (fsys ?s1)\<lparr> files := (files (fsys ?s1))(p \<mapsto> (old @ g a @ [nl]) @ unlines (map g ls)) \<rparr> \<rparr>" .
  then have "fold (\<lambda>l s. write_out (g l @ [nl]) (checkRules l s)) (a # ls) s =
     ?s1\<lparr> extraRules := fold new_snippets ls (extraRules ?s1),
        libraries := fold new_libraries ls (libraries ?s1),
        fsys := (fsys ?s1)\<lparr> files := (files (fsys ?s1))(p \<mapsto> (old @ g a @ [nl]) @ unlines (map g ls)) \<rparr> \<rparr>"
    by (simp only: fold_simps o_apply)
  also have "\<dots> = s\<lparr> extraRules := fold new_snippets (a # ls) (extraRules s),
        libraries := fold new_libraries (a # ls) (libraries s),
        fsys := (fsys s)\<lparr> files := (files (fsys s))(p \<mapsto> old @ unlines (map g (a # ls))) \<rparr> \<rparr>"
    by (simp add: s1 unlines_def)
  finally show ?case .
qed

lemma run_delimited_body:
  assumes "\<not> inIndentedFile s" and "inDelimitedFile s"
    and "list_all (\<lambda>l. \<not> isDelimited (replaceLeadingTabs l)) body"
  shows "run ow s body =
     Inr (fold (\<lambda>l s. write_out (l @ [nl]) (checkRules l s)) (map replaceLeadingTabs body) s)"
  using assms
proof (induction body arbitrary: s)
  case Nil
  then show ?case by simp
next
  case (Cons a body)
  let ?l = "replaceLeadingTabs a"
  have st: "step ow s a = Inr (write_out (?l @ [nl]) (checkRules ?l s))"
    using Cons.prems by (simp add: step_def emitVerbatim_def Let_def)
  have "\<not> inIndentedFile (write_out (?l @ [nl]) (checkRules ?l s))"
       "inDelimitedFile (write_out (?l @ [nl]) (checkRules ?l s))"
    using Cons.prems by (simp_all add: checkRules_eq write_out_def split: option.splits)
  from Cons.IH[OF this] Cons.prems show ?case
    by (simp add: st)
qed

lemma run_indented_body:
  assumes "inIndentedFile s"
    and "list_all (\<lambda>l. isIndentedOrEmpty (replaceLeadingTabs l)) body"
  shows "run ow s body =
     Inr (fold (\<lambda>l s. write_out (emit_text l @ [nl]) (checkRules l s)) (map replaceLeadingTabs body) s)"
  using assms
proof (induction body arbitrary: s)
  case Nil
  then show ?case by simp
next
  case (Cons a body)
  let ?l = "replaceLeadingTabs a"
  have st: "step ow s a = Inr (write_out (emit_text ?l @ [nl]) (checkRules ?l s))"
    using Cons.prems by (simp add: step_def emit_def Let_def)
  have "inIndentedFile (write_out (emit_text ?l @ [nl]) (checkRules ?l s))"
    using Cons.prems by (simp_all add: checkRules_eq write_out_def split: option.splits)
  from Cons.IH[OF this] Cons.prems show ?case
    by (simp add: st)
qed

lemma run_quiet:
  assumes "\<not> inIndentedFile s" and "\<not> inDelimitedFile s" and "list_all quiet ls"
  shows "run ow s ls = Inr (s\<lparr> prevline := fold remember ls (prevline s) \<rparr>)"
  using assms
proof (induction ls arbitrary: s)
  case Nil
  then show ?case by simp
next
  case (Cons a ls)
  have st: "step ow s a = Inr (s\<lparr> prevline := remember a (prevline s) \<rparr>)"
    using Cons.prems by (simp add: step_def quiet_def remember_def Let_def)
  from Cons.IH[of "s\<lparr> prevline := remember a (prevline s) \<rparr>"] Cons.prems show ?case
    by (simp add: st)
qed

lemma write_out_fields [simp]:
  "projname (write_out t s) = projname s"
  "prevline (write_out t s) = prevline s"
  "inIndentedFile (write_out t s) = inIndentedFile s"
  "inDelimitedFile (write_out t s) = inDelimitedFile s"
  "firstFile (write_out t s) = firstFile s"
  "srcfile (write_out t s) = srcfile s"
  "srcnames (write_out t s) = srcnames s"
  "extraRules (write_out t s) = extraRules s"
  "libraries (write_out t s) = libraries s"
  by (simp_all add: write_out_def split: option.splits)

lemma checkRules_fields [simp]:
  "projname (checkRules l s) = projname s"
  "prevline (checkRules l s) = prevline s"
  "inIndentedFile (checkRules l s) = inIndentedFile s"
  "inDelimitedFile (checkRules l s) = inDelimitedFile s"
  "firstFile (checkRules l s) = firstFile s"
  "srcfile (checkRules l s) = srcfile s"
  "srcnames (checkRules l s) = srcnames s"
  "fsys (checkRules l s) = fsys s"
  "extraRules (checkRules l s) = new_snippets l (extraRules s)"
  "libraries (checkRules l s) = new_libraries l (libraries s)"
  by (simp_all add: checkRules_eq)

lemma firstTree_Inr:
  assumes "firstTree ow s = Inr s1"
  shows "\<exists>f. s1 = s\<lparr> firstFile := False, fsys := f \<rparr> \<and>
             (if firstFile s then makeTree ow (fsys s) = Inr f else f = fsys s)"
  using assms by (auto simp: firstTree_def split: if_splits sum.splits)

lemma firstTree_fields:
  assumes "firstTree ow s = Inr s1"
  shows "projname s1 = projname s" "prevline s1 = prevline s"
    "inIndentedFile s1 = inIndentedFile s" "inDelimitedFile s1 = inDelimitedFile s"
    "srcfile s1 = srcfile s" "srcnames s1 = srcnames s" "extraRules s1 = extraRules s"
    "libraries s1 = libraries s" "\<not> firstFile s1"
  using firstTree_Inr[OF assms] by auto

lemma createProject_quiet:
  assumes "list_all quiet doc"
  shows "\<exists>s. createProject ow pname doc f = Inr (False, s) \<and> fsys s = f \<and>
             srcnames s = [] \<and> srcfile s = None \<and> firstFile s"
proof -
  have "run ow (init pname f) doc =
          Inr ((init pname f)\<lparr> prevline := fold remember doc (prevline (init pname f)) \<rparr>)"
    using assms by (intro run_quiet) (simp_all add: init_def)
  then show ?thesis
    by (simp add: createProject_def finish_def close_srcfile_def init_def)
qed

lemma makeTree_root: "makeTree ow f = Inr f' \<Longrightarrow> root_exists f'"
  by (auto simp: makeTree_def Let_def split: if_splits)

lemma write_out_root [simp]: "root_exists (fsys (write_out t s)) = root_exists (fsys s)"
  by (simp add: write_out_def split: option.splits)

lemma makeTree_ok:
  assumes "ow \<or> \<not> root_exists f" and "\<not> src_exists f" and "can_mkdir f SrcDir"
    and "build_exists f \<or> can_mkdir f BuildDir"
  shows "makeTree ow f = Inr (f\<lparr> root_exists := True, src_exists := True, build_exists := True \<rparr>)"
  using assms by (auto simp: makeTree_def Let_def)

lemma step_open_fenced:
  assumes "\<not> inIndentedFile s" and "\<not> inDelimitedFile s" and "srcfile s = None"
    and "isDelimited (replaceLeadingTabs l)"
    and "firstTree ow (s\<lparr>prevline := trimExtras (prevline s)\<rparr>) = Inr s1"
    and "n = (if fst (isSourceFilename (prevline s)) then trimExtras (prevline s) else ''main.cpp'')"
    and "can_open (fsys s1) n"
  shows "step ow s l =
     Inr (s1\<lparr> inDelimitedFile := True, srcfile := Some n,
              srcnames := emplace (filename n) (srcnames s1),
              fsys := (fsys s1)\<lparr> files := (files (fsys s1))(n \<mapsto> []) \<rparr> \<rparr>)"
proof -
  have sf: "srcfile s1 = None"
    using firstTree_fields(5)[OF assms(5)] assms(3) by simp
  show ?thesis
  proof (cases "fst (isSourceFilename (prevline s))")
    case True
    then have "isSourceFilename (prevline s) = (True, trimExtras (prevline s))"
      by (simp add: isSourceFilename_def Let_def)
    with True assms sf show ?thesis
      by (simp add: step_def Let_def open_delimited_def open_srcfile_def)
  next
    case False
    then have "isSourceFilename (prevline s) = (False, trimExtras (prevline s))"
      by (simp add: isSourceFilename_def Let_def)
    with False assms sf show ?thesis
      by (simp add: step_def Let_def open_delimited_def open_srcfile_def)
  qed
qed

lemma run_fenced_block:
  assumes "\<not> inIndentedFile s" and "\<not> inDelimitedFile s" and "srcfile s = None"
    and "isDelimited (replaceLeadingTabs fence1)"
    and "firstTree ow (s\<lparr>prevline := trimExtras (prevline s)\<rparr>) = Inr s1"
    and "n = (if fst (isSourceFilename (prevline s)) then trimExtras (prevline s) else ''main.cpp'')"
    and "can_open (fsys s1) n"
    and "list_all (\<lambda>l. \<not> isDelimited (replaceLeadingTabs l)) body"
    and "isDelimited (replaceLeadingTabs fence2)"
  shows "run ow s (fence1 # body @ [fence2]) =
     Inr (s1\<lparr> prevline := replaceLeadingTabs fence2,
              srcnames := emplace (filename n) (srcnames s1),
              extraRules := fold new_snippets (map replaceLeadingTabs body) (extraRules s1),
              libraries := fold new_libraries (map replaceLeadingTabs body) (libraries s1),
              fsys := (fsys s1)\<lparr> files := (files (fsys s1))
                         (n \<mapsto> unlines (map replaceLeadingTabs body)) \<rparr> \<rparr>)"
proof -
  let ?a = "s1\<lparr> inDelimitedFile := True, srcfile := Some n,
              srcnames := emplace (filename n) (srcnames s1),
              fsys := (fsys s1)\<lparr> files := (files (fsys s1))(n \<mapsto> []) \<rparr> \<rparr>"
  let ?b = "?a\<lparr> extraRules := fold new_snippets (map replaceLeadingTabs body) (extraRules ?a),
        libraries := fold new_libraries (map replaceLeadingTabs body) (libraries ?a),
        fsys := (fsys ?a)\<lparr> files := (files (fsys ?a))(n \<mapsto> [] @ unlines (map (\<lambda>l. l) (map replaceLeadingTabs body))) \<rparr> \<rparr>"
  note ff = firstTree_fields[OF assms(5)]
  have 1: "step ow s fence1 = Inr ?a"
    using assms(1-7) by (rule step_open_fenced)
  have ind: "\<not> inIndentedFile ?a" "inDelimitedFile ?a"
    using ff assms(1) by simp_all
  have 2: "run ow ?a body = Inr ?b"
    unfolding run_delimited_body[OF ind assms(8)]
    by (subst fold_write_check[where p = n and old = "[]"]) simp_all
  have ind2: "\<not> inIndentedFile ?b" "inDelimitedFile ?b"
    using ff assms(1) by simp_all
  have 3: "step ow ?b fence2 = Inr (?b\<lparr> prevline := replaceLeadingTabs fence2, inDelimitedFile := False, srcfile := None \<rparr>)"
    using ind2 assms(9) by (simp add: step_def Let_def close_srcfile_def)
  have eq: "?b\<lparr> prevline := replaceLeadingTabs fence2, inDelimitedFile := False, srcfile := None \<rparr> =
     s1\<lparr> prevline := replaceLeadingTabs fence2,
              srcnames := emplace (filename n) (srcnames s1),
              extraRules := fold new_snippets (map replaceLeadingTabs body) (extraRules s1),
              libraries := fold new_libraries (map replaceLeadingTabs body) (libraries s1),
              fsys := (fsys s1)\<lparr> files := (files (fsys s1))
                         (n \<mapsto> unlines (map replaceLeadingTabs body)) \<rparr> \<rparr>"
    using ff assms(2,3) by simp
  show ?thesis
    by (simp only: run.simps 1 sum.case run_append 2 3 eq)
qed

lemma run_append_Inr:
  "run ow s xs = Inr s1 \<Longrightarrow> run ow s1 ys = r \<Longrightarrow> run ow s (xs @ ys) = r"
  by (simp add: run_append)

lemma finish_ok:
  assumes "srcnames s \<noteq> []" and "md_copy (fsys s) = None"
  shows "\<exists>s'. finish doc s = Inr (True, s') \<and> srcnames s' = srcnames s \<and>
           extraRules s' = extraRules s \<and> libraries s' = libraries s \<and>
           (\<forall>k. k \<noteq> ''CMakeLists.txt'' \<longrightarrow> files (fsys s') k = files (fsys s) k) \<and>
           (can_open (fsys s) ''CMakeLists.txt'' \<longrightarrow>
              files (fsys s') ''CMakeLists.txt'' =
                Some (srcLevelText (projname s) (extraRules s) (srcnames s) (libraries s))) \<and>
           md_copy (fsys s') = Some doc"
  using assms
  by (simp add: finish_def Let_def writeSrcLevel_def writeTopLevel_def copy_md_def close_srcfile_def)

lemma step_open_indented:
  assumes "\<not> inIndentedFile s" and "\<not> inDelimitedFile s" and "srcfile s = None"
    and "isNonEmptyIndented (replaceLeadingTabs l)"
    and "fst (isSourceFilename (prevline s)) \<or> firstFile s"
    and "firstTree ow (s\<lparr>prevline := trimExtras (prevline s)\<rparr>) = Inr s1"
    and "n = (if fst (isSourceFilename (prevline s)) then trimExtras (prevline s) else ''main.cpp'')"
    and "can_open (fsys s1) n"
  shows "step ow s l =
     Inr (s1\<lparr> inIndentedFile := True, srcfile := Some n,
              srcnames := emplace (filename n) (srcnames s1),
              extraRules := new_snippets (replaceLeadingTabs l) (extraRules s1),
              libraries := new_libraries (replaceLeadingTabs l) (libraries s1),
              fsys := (fsys s1)\<lparr> files := (files (fsys s1))
                        (n \<mapsto> emit_text (replaceLeadingTabs l) @ [nl]) \<rparr> \<rparr>)"
proof -
  have sf: "srcfile s1 = None"
    using firstTree_fields(5)[OF assms(6)] assms(3) by simp
  note nd = nonEmptyIndented_not_delimited[OF assms(4)]
  note ne = isNonEmptyIndented_not_Nil[OF assms(4)]
  show ?thesis
  proof (cases "fst (isSourceFilename (prevline s))")
    case True
    then have "isSourceFilename (prevline s) = (True, trimExtras (prevline s))"
      by (simp add: isSourceFilename_def Let_def)
    with True assms(1-4,6-8) sf nd show ?thesis
      by (simp add: step_def Let_def open_indented_def open_srcfile_def emit_def write_out_def
            checkRules_eq)
  next
    case False
    then have "isSourceFilename (prevline s) = (False, trimExtras (prevline s))"
      by (simp add: isSourceFilename_def Let_def)
    with False assms sf nd ne show ?thesis
      by (simp add: step_def Let_def open_indented_def open_srcfile_def emit_def write_out_def
            checkRules_eq)
  qed
qed

lemma run_indented_block:
  assumes "\<not> inIndentedFile s" and "\<not> inDelimitedFile s" and "srcfile s = None"
    and "isNonEmptyIndented (replaceLeadingTabs b1)"
    and "fst (isSourceFilename (prevline s)) \<or> firstFile s"
    and "firstTree ow (s\<lparr>prevline := trimExtras (prevline s)\<rparr>) = Inr s1"
    and "n = (if fst (isSourceFilename (prevline s)) then trimExtras (prevline s) else ''main.cpp'')"
    and "can_open (fsys s1) n"
    and "list_all (\<lambda>l. isIndentedOrEmpty (replaceLeadingTabs l)) bs"
  shows "run ow s (b1 # bs) =
     Inr (s1\<lparr> inIndentedFile := True, srcfile := Some n,
              srcnames := emplace (filename n) (srcnames s1),
              extraRules := fold new_snippets (map replaceLeadingTabs (b1 # bs)) (extraRules s1),
              libraries := fold new_libraries (map replaceLeadingTabs (b1 # bs)) (libraries s1),
              fsys := (fsys s1)\<lparr> files := (files (fsys s1))
                         (n \<mapsto> unlines (map emit_text (map replaceLeadingTabs (b1 # bs)))) \<rparr> \<rparr>)"
proof -
  let ?l = "replaceLeadingTabs b1"
  let ?a = "s1\<lparr> inIndentedFile := True, srcfile := Some n,
              srcnames := emplace (filename n) (srcnames s1),
              extraRules := new_snippets ?l (extraRules s1),
              libraries := new_libraries ?l (libraries s1),
              fsys := (fsys s1)\<lparr> files := (files (fsys s1))(n \<mapsto> emit_text ?l @ [nl]) \<rparr> \<rparr>"
  let ?b = "?a\<lparr> extraRules := fold new_snippets (map replaceLeadingTabs bs) (extraRules ?a),
        libraries := fold new_libraries (map replaceLeadingTabs bs) (libraries ?a),
        fsys := (fsys ?a)\<lparr> files := (files (fsys ?a))
           (n \<mapsto> (emit_text ?l @ [nl]) @ unlines (map emit_text (map replaceLeadingTabs bs))) \<rparr> \<rparr>"
  have 1: "step ow s b1 = Inr ?a"
    using assms(1-8) by (rule step_open_indented)
  have ind: "inIndentedFile ?a" by simp
  have 2: "run ow ?a bs = Inr ?b"
    unfolding run_indented_body[OF ind assms(9)]
    by (subst fold_write_check[where p = n and old = "emit_text ?l @ [nl]"]) simp_all
  have eq: "?b = s1\<lparr> inIndentedFile := True, srcfile := Some n,
              srcnames := emplace (filename n) (srcnames s1),
              extraRules := fold new_snippets (map replaceLeadingTabs (b1 # bs)) (extraRules s1),
              libraries := fold new_libraries (map replaceLeadingTabs (b1 # bs)) (libraries s1),
              fsys := (fsys s1)\<lparr> files := (files (fsys s1))
                         (n \<mapsto> unlines (map emit_text (map replaceLeadingTabs (b1 # bs)))) \<rparr> \<rparr>"
    by (simp add: unlines_def)
  show ?thesis
    by (simp only: run.simps 1 sum.case 2 eq)
qed

lemma run_after_indented:
  assumes "inIndentedFile s" and "\<not> inDelimitedFile s"
    and "case rest of [] \<Rightarrow> True
         | t # post \<Rightarrow> \<not> isIndentedOrEmpty (replaceLeadingTabs t) \<and> list_all quiet post"
  shows "\<exists>s'. run ow s rest = Inr s' \<and> srcnames s' = srcnames s \<and> fsys s' = fsys s \<and>
               extraRules s' = extraRules s \<and> libraries s' = libraries s"
proof (cases rest)
  case Nil
  then show ?thesis by simp
next
  case (Cons t post)
  let ?c = "(close_srcfile (s\<lparr> prevline := replaceLeadingTabs t \<rparr>))\<lparr> inIndentedFile := False \<rparr>"
  from Cons assms have 1: "step ow s t = Inr ?c"
    by (simp add: step_def Let_def)
  have "run ow ?c post = Inr (?c\<lparr> prevline := fold remember post (prevline ?c) \<rparr>)"
    using Cons assms
    by (intro run_quiet) (simp_all add: close_srcfile_def)
  with 1 Cons show ?thesis
    by (simp add: close_srcfile_def)
qed




lemma write_out_can_open [simp]: "can_open (fsys (write_out t s)) = can_open (fsys s)"
  by (simp add: write_out_def split: option.splits)

section \<open>The claims\<close>

subsection \<open>C1: one captioned fenced block\<close>

text \<open>The run on such a document, with the lines described by the tests of the code.\<close>

lemma fenced_block_run:
  assumes pre: "list_all quiet pre"
    and cap: "quiet caption" "fst (isSourceFilename (replaceLeadingTabs caption))"
    and name: "name = trimExtras (replaceLeadingTabs caption)"
    and f1: "isDelimited (replaceLeadingTabs fence1)"
    and body: "list_all (\<lambda>l. \<not> isDelimited (replaceLeadingTabs l)) body"
    and f2: "isDelimited (replaceLeadingTabs fence2)"
    and post: "list_all quiet post"
    and env: "overwrite \<or> \<not> root_exists f" "\<not> src_exists f" "can_mkdir f SrcDir"
      "build_exists f \<or> can_mkdir f BuildDir" "can_open f name" "md_copy f = None"
  shows "\<exists>s. createProject overwrite pname (pre @ [caption, fence1] @ body @ [fence2] @ post) f
               = Inr (True, s) \<and>
             srcnames s = [filename name] \<and>
             files (fsys s) name = Some (unlines (map replaceLeadingTabs body)) \<and>
             (\<forall>k. k \<noteq> name \<and> k \<noteq> ''CMakeLists.txt'' \<longrightarrow> files (fsys s) k = files f k) \<and>
             (\<forall>l \<in> set body. l = [] \<or> hd l \<noteq> tab \<longrightarrow> replaceLeadingTabs l = l)"
proof -
  let ?s0 = "init pname f"
  let ?sa = "?s0\<lparr> prevline := replaceLeadingTabs caption \<rparr>"
  let ?f1 = "f\<lparr> root_exists := True, src_exists := True, build_exists := True \<rparr>"
  let ?s1 = "?sa\<lparr> prevline := name, firstFile := False, fsys := ?f1 \<rparr>"
  let ?sd = "?s1\<lparr> prevline := replaceLeadingTabs fence2,
              srcnames := emplace (filename name) (srcnames ?s1),
              extraRules := fold new_snippets (map replaceLeadingTabs body) (extraRules ?s1),
              libraries := fold new_libraries (map replaceLeadingTabs body) (libraries ?s1),
              fsys := (fsys ?s1)\<lparr> files := (files (fsys ?s1))
                         (name \<mapsto> unlines (map replaceLeadingTabs body)) \<rparr> \<rparr>"
  let ?se = "?sd\<lparr> prevline := fold remember post (prevline ?sd) \<rparr>"
  have "list_all quiet (pre @ [caption])" using pre cap(1) by simp
  then have "run overwrite ?s0 (pre @ [caption]) =
      Inr (?s0\<lparr> prevline := fold remember (pre @ [caption]) (prevline ?s0) \<rparr>)"
    by (intro run_quiet) (simp_all add: init_def)
  then have 1: "run overwrite ?s0 (pre @ [caption]) = Inr ?sa"
    by (simp only: remember_caption[OF cap(2)])
  have mt: "makeTree overwrite f = Inr ?f1" using env(1-4) by (rule makeTree_ok)
  have ft: "firstTree overwrite (?sa\<lparr>prevline := trimExtras (prevline ?sa)\<rparr>) = Inr ?s1"
    by (simp add: firstTree_def init_def mt name)
  have 2: "run overwrite ?sa (fence1 # body @ [fence2]) = Inr ?sd"
    by (rule run_fenced_block[OF _ _ _ f1 ft _ _ body f2])
       (simp_all add: init_def name cap(2) env(5)[unfolded name])
  have 3: "run overwrite ?sd post = Inr ?se"
    using post by (intro run_quiet) (simp_all add: init_def)
  have doc: "pre @ [caption, fence1] @ body @ [fence2] @ post =
             (pre @ [caption]) @ (fence1 # body @ [fence2]) @ post" by simp
  have r: "run overwrite ?s0 (pre @ [caption, fence1] @ body @ [fence2] @ post) = Inr ?se"
    unfolding doc
    by (rule run_append_Inr[OF 1], rule run_append_Inr[OF 2], rule 3)
  have sn: "srcnames ?se = [filename name]" by (simp add: init_def emplace_def)
  have fl: "files (fsys ?se) = (files f)(name \<mapsto> unlines (map replaceLeadingTabs body))"
    by (simp add: init_def)
  have "srcnames ?se \<noteq> []" "md_copy (fsys ?se) = None"
    using env(6) by (simp_all add: init_def emplace_def)
  from finish_ok[OF this, of "pre @ [caption, fence1] @ body @ [fence2] @ post"]
  obtain s' where fin: "finish (pre @ [caption, fence1] @ body @ [fence2] @ post) ?se = Inr (True, s')"
    and sn': "srcnames s' = srcnames ?se"
    and fl': "\<forall>k. k \<noteq> ''CMakeLists.txt'' \<longrightarrow> files (fsys s') k = files (fsys ?se) k"
    by blast
  have nc: "name \<noteq> ''CMakeLists.txt''"
    unfolding name using cap(2) by (rule source_name_not_cmake)
  have "createProject overwrite pname (pre @ [caption, fence1] @ body @ [fence2] @ post) f = Inr (True, s')"
    by (simp only: createProject_def r sum.case fin)
  moreover have "srcnames s' = [filename name]" using sn' sn by simp
  moreover have "files (fsys s') name = Some (unlines (map replaceLeadingTabs body))"
    using fl' nc fl by simp
  moreover have "\<forall>k. k \<noteq> name \<and> k \<noteq> ''CMakeLists.txt'' \<longrightarrow> files (fsys s') k = files f k"
    using fl' fl by simp
  moreover have "\<forall>l \<in> set body. l = [] \<or> hd l \<noteq> tab \<longrightarrow> replaceLeadingTabs l = l"
    using replaceLeadingTabs_no_tab by blast
  ultimately show ?thesis by blast
qed

text \<open>Claim C1, as amended. Take a document made of: lines that are plain (no fence, not a
  line of just one or two backticks or tildes, not a non-empty indented line); a plain
  caption line that names a recognised source file; an opening fence, that is a line
  starting with at least three backticks or three tildes; body lines none of which is a
  fence or a line of just one or two backticks or tildes; a closing fence; and again
  plain lines. On a file system that lets the tree and the file be created,
  \<open>createProject\<close> succeeds and records exactly one name, the last component of the
  stripped caption. The file lies at the stripped caption's path below the sources
  directory, hence directly in that directory and under that exact name when the
  stripped caption contains no slash. It holds the body lines in order, each with its
  leading tab characters replaced by four spaces apiece and otherwise unchanged; a body
  line that does not begin with a tab is written as it is. No other file below the
  sources directory is touched apart from \<open>CMakeLists.txt\<close>. Lines of just one or
  two backticks or tildes are left out of the statement: the code takes them for
  delimiter lines (see C4).\<close>

theorem fenced_block_materialized:
  assumes pre: "list_all plain pre"
    and cap: "plain caption" "fst (isSourceFilename (replaceLeadingTabs caption))"
    and name: "name = trimExtras (replaceLeadingTabs caption)"
    and f1: "fence_line fence1"
    and body: "list_all (\<lambda>l. \<not> fence_line l \<and> \<not> short_fence l) body"
    and f2: "fence_line fence2"
    and post: "list_all plain post"
    and env: "overwrite \<or> \<not> root_exists f" "\<not> src_exists f" "can_mkdir f SrcDir"
      "build_exists f \<or> can_mkdir f BuildDir" "can_open f name" "md_copy f = None"
  shows "\<exists>s. createProject overwrite pname (pre @ [caption, fence1] @ body @ [fence2] @ post) f
               = Inr (True, s) \<and>
             srcnames s = [filename name] \<and>
             (CHR ''/'' \<notin> set name \<longrightarrow> filename name = name) \<and>
             files (fsys s) name = Some (unlines (map replaceLeadingTabs body)) \<and>
             (\<forall>k. k \<noteq> name \<and> k \<noteq> ''CMakeLists.txt'' \<longrightarrow> files (fsys s) k = files f k) \<and>
             (\<forall>l \<in> set body. l = [] \<or> hd l \<noteq> tab \<longrightarrow> replaceLeadingTabs l = l)"
proof -
  from fenced_block_run[OF plain_all_quiet[OF pre] cap(1)[unfolded plain_quiet] cap(2) name
      fence_line_delimited[OF f1] body_not_delimited[OF body] fence_line_delimited[OF f2]
      plain_all_quiet[OF post] env, of pname]
  show ?thesis using filename_no_slash[of name] by blast
qed

theorem fenced_block_materialized_witness:
  "list_all plain [''Intro''] \<and> plain ''**main.cpp**'' \<and>
   fst (isSourceFilename (replaceLeadingTabs ''**main.cpp**'')) \<and>
   fence_line fence3 \<and> fence_line ''~~~'' \<and>
   (\<exists>s. createProject False ''proj''
          ([''Intro''] @ [''**main.cpp**'', fence3] @ [tab # ''int x;'', ''return;''] @ [''~~~'']
             @ [''Done.'']) fresh = Inr (True, s) \<and>
        srcnames s = [''main.cpp''] \<and>
        files (fsys s) ''main.cpp'' = Some (''    int x;'' @ [nl] @ ''return;'' @ [nl]))"
proof -
  have h: "list_all plain [''Intro'']" "plain ''**main.cpp**''"
    "fst (isSourceFilename (replaceLeadingTabs ''**main.cpp**''))"
    "''main.cpp'' = trimExtras (replaceLeadingTabs ''**main.cpp**'')"
    "fence_line fence3"
    "list_all (\<lambda>l. \<not> fence_line l \<and> \<not> short_fence l) [tab # ''int x;'', ''return;'']"
    "fence_line ''~~~''"
    "list_all plain [''Done.'']"
    by code_simp+
  have e: "False \<or> \<not> root_exists fresh" "\<not> src_exists fresh" "can_mkdir fresh SrcDir"
    "build_exists fresh \<or> can_mkdir fresh BuildDir" "can_open fresh ''main.cpp''"
    "md_copy fresh = None"
    by (simp_all add: fresh_def)
  have v: "filename ''main.cpp'' = ''main.cpp''"
    "unlines (map replaceLeadingTabs [tab # ''int x;'', ''return;'']) =
       ''    int x;'' @ [nl] @ ''return;'' @ [nl]"
    by code_simp+
  from fenced_block_materialized[OF h e, of "''proj''"] h(1,2,3,5,7) show ?thesis
    unfolding v by blast
qed

text \<open>The claim as stated fails on a body line that begins with a tab: the file receives
  four spaces in its place.\<close>

theorem fenced_block_materialized_counterexample:
  "(case createProject False ''proj'' [''main.cpp'', fence3, tab # ''int x;'', fence3] fresh of
      Inr (ok, s) \<Rightarrow> files (fsys s) ''main.cpp''
    | Inl e \<Rightarrow> None) = Some (''    int x;'' @ [nl]) \<and>
   ''    int x;'' @ [nl] \<noteq> tab # ''int x;'' @ [nl]"
  by code_simp

subsection \<open>C2: the closing fence\<close>

text \<open>Claim C2, as amended. A line that starts with at least three backticks or at
  least three tildes is a delimiter line. Inside a delimited block, reading a delimiter
  line closes the output stream and returns the scanner to the outside state; nothing
  is written for that line, and the line itself becomes the caption candidate, taking
  the place of the candidate that was remembered before.\<close>

theorem closing_fence:
  "(delimLength \<le> n \<longrightarrow> c = backtick \<or> c = tilde \<longrightarrow>
      isDelimited (replaceLeadingTabs (replicate n c @ rest))) \<and>
   (inDelimitedFile s \<longrightarrow> \<not> inIndentedFile s \<longrightarrow> isDelimited (replaceLeadingTabs line) \<longrightarrow>
      replaceLeadingTabs line = line \<and>
      step ow s line = Inr (s\<lparr> prevline := line, inDelimitedFile := False, srcfile := None \<rparr>))"
proof (intro conjI impI)
  assume "delimLength \<le> n" "c = backtick \<or> c = tilde"
  then have d: "isDelimited (replicate n c @ rest)" by (rule fence_isDelimited)
  have "replaceLeadingTabs (replicate n c @ rest) = replicate n c @ rest"
    using \<open>delimLength \<le> n\<close> \<open>c = backtick \<or> c = tilde\<close>
    by (cases n) (auto simp: replaceLeadingTabs_def delimLength_def)
  with d show "isDelimited (replaceLeadingTabs (replicate n c @ rest))" by simp
next
  assume a: "inDelimitedFile s" "\<not> inIndentedFile s" "isDelimited (replaceLeadingTabs line)"
  from a(3) show "replaceLeadingTabs line = line" by (rule isDelimited_no_tab)
  with a show "step ow s line = Inr (s\<lparr> prevline := line, inDelimitedFile := False, srcfile := None \<rparr>)"
    by (simp add: step_def Let_def close_srcfile_def)
qed

theorem closing_fence_witness:
  "isDelimited (replaceLeadingTabs (replicate 3 backtick @ ''cpp'')) \<and>
   step False ((init ''proj'' fresh)\<lparr> prevline := ''foo.cpp'', inDelimitedFile := True,
                                        srcfile := Some ''foo.cpp'' \<rparr>) fence3 =
     Inr ((init ''proj'' fresh)\<lparr> prevline := fence3, inDelimitedFile := False,
                                   srcfile := None \<rparr>)"
proof -
  let ?s = "(init ''proj'' fresh)\<lparr> prevline := ''foo.cpp'', inDelimitedFile := True,
                                      srcfile := Some ''foo.cpp'' \<rparr>"
  have a: "inDelimitedFile ?s" "\<not> inIndentedFile ?s" by (simp_all add: init_def)
  have b: "isDelimited (replaceLeadingTabs fence3)" by code_simp
  have c: "delimLength \<le> 3" by (simp add: delimLength_def)
  from closing_fence[of 3 backtick "''cpp''" ?s fence3 False] a b c
  show ?thesis by simp
qed

text \<open>The claim as stated fails: before the closing fence is read the candidate is
  \<open>foo.cpp\<close>, afterwards it is the fence, so a second fenced block right after the
  first is written to \<open>main.cpp\<close> and not to \<open>foo.cpp\<close> again.\<close>

theorem closing_fence_counterexample:
  "(case run False (init ''proj'' fresh) [''foo.cpp'', fence3, ''a''] of
      Inr s \<Rightarrow> prevline s | Inl e \<Rightarrow> []) = ''foo.cpp'' \<and>
   (case run False (init ''proj'' fresh) [''foo.cpp'', fence3, ''a'', fence3] of
      Inr s \<Rightarrow> prevline s | Inl e \<Rightarrow> []) = fence3 \<and>
   (case run False (init ''proj'' fresh)
           [''foo.cpp'', fence3, ''a'', fence3, fence3, ''b'', fence3] of
      Inr s \<Rightarrow> srcnames s | Inl e \<Rightarrow> []) = [''foo.cpp'', ''main.cpp'']"
  by code_simp

subsection \<open>C3: snippets and libraries are entered once\<close>















subsection \<open>C4: a document without fences and indented lines\<close>

text \<open>On a document of plain lines (no fence, no line of just one or two backticks or
  tildes, no non-empty indented line) \<open>createProject\<close> answers false and leaves the
  file system as it found it.\<close>

lemma plain_document_nothing_extracted:
  assumes "list_all plain doc"
  shows "\<exists>s. createProject ow pname doc f = Inr (False, s) \<and> fsys s = f \<and> srcnames s = []"
  using createProject_quiet[OF plain_all_quiet[OF assms], of ow pname f] by blast

text \<open>Claim C4 says that a document in which no line opens a block (no fence line, no
  qualifying indented run) yields false and creates nothing. The code misses this for a
  line that consists of one or two backticks or tildes. \<open>isDelimited\<close> compares the
  position of the first character that is not a fence character with \<open>delimLength\<close>;
  on a line of fence characters only there is no such position, \<open>find_first_not_of\<close>
  answers \<open>npos\<close>, and \<open>npos >= delimLength\<close> holds whatever the length of the line.
  The document below has no fence of at least three characters and no indented line,
  yet the line \<open>~\<close> opens \<open>main.cpp\<close>: the tree is created, \<open>text\<close> is written,
  the document is copied and the answer is true.\<close>

theorem short_fence_opens_block:
  "list_all (\<lambda>l. \<not> fence_line l \<and> \<not> isNonEmptyIndented (replaceLeadingTabs l))
     [''# Title'', ''~'', ''text''] \<and>
   (case createProject False ''proj'' [''# Title'', ''~'', ''text''] fresh of
      Inr (ok, s) \<Rightarrow>
        (ok, srcnames s, files (fsys s) ''main.cpp'', root_exists (fsys s), md_copy (fsys s) \<noteq> None)
    | Inl e \<Rightarrow> (False, [], None, False, False)) =
     (True, [''main.cpp''], Some (''text'' @ [nl]), True, True)"
  by code_simp

subsection \<open>C5: one captioned indented block\<close>

text \<open>The run on such a document, with the lines described by the tests of the code.\<close>

lemma indented_block_run:
  assumes pre: "list_all quiet pre"
    and cap: "quiet caption" "fst (isSourceFilename (replaceLeadingTabs caption))"
    and name: "name = trimExtras (replaceLeadingTabs caption)"
    and b1: "isNonEmptyIndented (replaceLeadingTabs b1)"
    and bs: "list_all (\<lambda>l. isIndentedOrEmpty (replaceLeadingTabs l)) bs"
    and rest: "case rest of [] \<Rightarrow> True
         | t # post \<Rightarrow> \<not> isIndentedOrEmpty (replaceLeadingTabs t) \<and> list_all quiet post"
    and env: "overwrite \<or> \<not> root_exists f" "\<not> src_exists f" "can_mkdir f SrcDir"
      "build_exists f \<or> can_mkdir f BuildDir" "can_open f name" "md_copy f = None"
  shows "\<exists>s. createProject overwrite pname (pre @ [caption] @ (b1 # bs) @ rest) f = Inr (True, s) \<and>
             srcnames s = [filename name] \<and>
             files (fsys s) name =
               Some (unlines (map (\<lambda>l. if length l < indentLevel then l else drop indentLevel l)
                                  (map replaceLeadingTabs (b1 # bs)))) \<and>
             (\<forall>l \<in> set (map replaceLeadingTabs (b1 # bs)).
                 indentLevel \<le> length l \<longrightarrow> take indentLevel l = replicate indentLevel (CHR '' ''))"
proof -
  let ?doc = "pre @ [caption] @ (b1 # bs) @ rest"
  let ?s0 = "init pname f"
  let ?sa = "?s0\<lparr> prevline := replaceLeadingTabs caption \<rparr>"
  let ?f1 = "f\<lparr> root_exists := True, src_exists := True, build_exists := True \<rparr>"
  let ?s1 = "?sa\<lparr> prevline := name, firstFile := False, fsys := ?f1 \<rparr>"
  let ?block = "map replaceLeadingTabs (b1 # bs)"
  let ?sb = "?s1\<lparr> inIndentedFile := True, srcfile := Some name,
              srcnames := emplace (filename name) (srcnames ?s1),
              extraRules := fold new_snippets ?block (extraRules ?s1),
              libraries := fold new_libraries ?block (libraries ?s1),
              fsys := (fsys ?s1)\<lparr> files := (files (fsys ?s1))
                         (name \<mapsto> unlines (map emit_text ?block)) \<rparr> \<rparr>"
  have all: "list_all isIndentedOrEmpty ?block"
    using b1 bs by (simp add: nonEmptyIndented_indented list_all_iff)
  have "list_all quiet (pre @ [caption])" using pre cap(1) by simp
  then have "run overwrite ?s0 (pre @ [caption]) =
      Inr (?s0\<lparr> prevline := fold remember (pre @ [caption]) (prevline ?s0) \<rparr>)"
    by (intro run_quiet) (simp_all add: init_def)
  then have 1: "run overwrite ?s0 (pre @ [caption]) = Inr ?sa"
    by (simp only: remember_caption[OF cap(2)])
  have mt: "makeTree overwrite f = Inr ?f1" using env(1-4) by (rule makeTree_ok)
  have ft: "firstTree overwrite (?sa\<lparr>prevline := trimExtras (prevline ?sa)\<rparr>) = Inr ?s1"
    by (simp add: firstTree_def init_def mt name)
  have 2: "run overwrite ?sa (b1 # bs) = Inr ?sb"
    by (rule run_indented_block[OF _ _ _ b1 _ ft _ _ bs])
       (simp_all add: init_def name cap(2) env(5)[unfolded name])
  have "inIndentedFile ?sb" "\<not> inDelimitedFile ?sb" by (simp_all add: init_def)
  from run_after_indented[OF this rest, of overwrite]
  obtain se where 3: "run overwrite ?sb rest = Inr se" and sn: "srcnames se = srcnames ?sb"
    and fs: "fsys se = fsys ?sb"
    by blast
  have doc: "?doc = (pre @ [caption]) @ (b1 # bs) @ rest" by simp
  have r: "run overwrite ?s0 ?doc = Inr se"
    unfolding doc
    by (rule run_append_Inr[OF 1], rule run_append_Inr[OF 2], rule 3)
  have sn2: "srcnames se = [filename name]" using sn by (simp add: init_def emplace_def)
  have fl: "files (fsys se) = (files f)(name \<mapsto> unlines (map emit_text ?block))"
    using fs by (simp add: init_def)
  have "srcnames se \<noteq> []" "md_copy (fsys se) = None"
    using env(6) sn2 fs by (simp_all add: init_def)
  from finish_ok[OF this, of ?doc]
  obtain s' where fin: "finish ?doc se = Inr (True, s')"
    and sn': "srcnames s' = srcnames se"
    and fl': "\<forall>k. k \<noteq> ''CMakeLists.txt'' \<longrightarrow> files (fsys s') k = files (fsys se) k"
    by blast
  have nc: "name \<noteq> ''CMakeLists.txt''"
    unfolding name using cap(2) by (rule source_name_not_cmake)
  have em: "map emit_text ?block =
      map (\<lambda>l. if length l < indentLevel then l else drop indentLevel l) ?block"
    using all by (intro map_cong refl emit_text_indented) (auto simp: list_all_iff)
  have "createProject overwrite pname ?doc f = Inr (True, s')"
    by (simp only: createProject_def r sum.case fin)
  moreover have "srcnames s' = [filename name]" using sn' sn2 by simp
  moreover have "files (fsys s') name =
      Some (unlines (map (\<lambda>l. if length l < indentLevel then l else drop indentLevel l) ?block))"
  proof -
    have "files (fsys s') name = files (fsys se) name" using fl' nc by blast
    also have "\<dots> = Some (unlines (map emit_text ?block))" by (simp only: fl fun_upd_same)
    finally show ?thesis by (simp only: em)
  qed
  moreover have "\<forall>l \<in> set ?block.
      indentLevel \<le> length l \<longrightarrow> take indentLevel l = replicate indentLevel (CHR '' '')"
    using all indented_spaces by (auto simp: list_all_iff)
  ultimately show ?thesis by blast
qed

text \<open>Claim C5, as amended. Take a document made of: plain lines (no fence, not a line of
  just one or two backticks or tildes, not a non-empty indented line); a plain caption
  line that names a recognised source file; a block whose first line is a non-empty
  indented line and whose further lines are indented or consist of spaces only (leading
  tabs counting as four spaces each); and then either nothing or a line that is not
  indented followed by plain lines. On a file system that lets the tree and the file be
  created, \<open>createProject\<close> succeeds and records exactly one name, the last component
  of the stripped caption (the stripped caption itself when it contains no slash). The
  file holds the block lines in order, where every line of at least four characters has
  lost exactly its four leading spaces, and every shorter line (an empty line, or one to
  three spaces) is written unchanged. Lines of just one or two backticks or tildes
  outside the block are left out of the statement: the code takes them for delimiter
  lines (see C4).\<close>

theorem indented_block_materialized:
  assumes pre: "list_all plain pre"
    and cap: "plain caption" "fst (isSourceFilename (replaceLeadingTabs caption))"
    and name: "name = trimExtras (replaceLeadingTabs caption)"
    and b1: "isNonEmptyIndented (replaceLeadingTabs b1)"
    and bs: "list_all (\<lambda>l. isIndentedOrEmpty (replaceLeadingTabs l)) bs"
    and rest: "case rest of [] \<Rightarrow> True
         | t # post \<Rightarrow> \<not> isIndentedOrEmpty (replaceLeadingTabs t) \<and> list_all plain post"
    and env: "overwrite \<or> \<not> root_exists f" "\<not> src_exists f" "can_mkdir f SrcDir"
      "build_exists f \<or> can_mkdir f BuildDir" "can_open f name" "md_copy f = None"
  shows "\<exists>s. createProject overwrite pname (pre @ [caption] @ (b1 # bs) @ rest) f = Inr (True, s) \<and>
             srcnames s = [filename name] \<and>
             (CHR ''/'' \<notin> set name \<longrightarrow> filename name = name) \<and>
             files (fsys s) name =
               Some (unlines (map (\<lambda>l. if length l < indentLevel then l else drop indentLevel l)
                                  (map replaceLeadingTabs (b1 # bs)))) \<and>
             (\<forall>l \<in> set (map replaceLeadingTabs (b1 # bs)).
                 indentLevel \<le> length l \<longrightarrow> take indentLevel l = replicate indentLevel (CHR '' ''))"
proof -
  from rest have rest': "case rest of [] \<Rightarrow> True
         | t # post \<Rightarrow> \<not> isIndentedOrEmpty (replaceLeadingTabs t) \<and> list_all quiet post"
    by (cases rest) (simp_all add: plain_all_quiet)
  from indented_block_run[OF plain_all_quiet[OF pre] cap(1)[unfolded plain_quiet] cap(2)
      name b1 bs rest' env, of pname]
  show ?thesis using filename_no_slash[of name] by blast
qed

theorem indented_block_materialized_witness:
  "plain ''foo.cpp'' \<and> fst (isSourceFilename (replaceLeadingTabs ''foo.cpp'')) \<and>
   isNonEmptyIndented (replaceLeadingTabs (tab # ''a'')) \<and>
   (\<exists>s. createProject False ''proj''
          ([] @ [''foo.cpp''] @ ((tab # ''a'') # [''  '', [], ''      b'']) @ [''x'', ''y''])
          fresh = Inr (True, s) \<and>
        srcnames s = [''foo.cpp''] \<and>
        files (fsys s) ''foo.cpp'' =
          Some (''a'' @ [nl] @ ''  '' @ [nl] @ [nl] @ ''  b'' @ [nl]))"
proof -
  have h: "list_all plain []" "plain ''foo.cpp''"
    "fst (isSourceFilename (replaceLeadingTabs ''foo.cpp''))"
    "''foo.cpp'' = trimExtras (replaceLeadingTabs ''foo.cpp'')"
    "isNonEmptyIndented (replaceLeadingTabs (tab # ''a''))"
    "list_all (\<lambda>l. isIndentedOrEmpty (replaceLeadingTabs l)) [''  '', [], ''      b'']"
    "case [''x'', ''y''] of [] \<Rightarrow> True
       | t # post \<Rightarrow> \<not> isIndentedOrEmpty (replaceLeadingTabs t) \<and> list_all plain post"
    by code_simp+
  have e: "False \<or> \<not> root_exists fresh" "\<not> src_exists fresh" "can_mkdir fresh SrcDir"
    "build_exists fresh \<or> can_mkdir fresh BuildDir" "can_open fresh ''foo.cpp''"
    "md_copy fresh = None"
    by (simp_all add: fresh_def)
  have v: "filename ''foo.cpp'' = ''foo.cpp''"
    "unlines (map (\<lambda>l. if length l < indentLevel then l else drop indentLevel l)
        (map replaceLeadingTabs ((tab # ''a'') # [''  '', [], ''      b'']))) =
       ''a'' @ [nl] @ ''  '' @ [nl] @ [nl] @ ''  b'' @ [nl]"
    by code_simp+
  from indented_block_materialized[OF h e, of "''proj''"] h(2,3,5) show ?thesis
    unfolding v by blast
qed

text \<open>The claim as stated fails on a short line inside the block: a line of two spaces
  is written as two spaces, nothing has been removed from it.\<close>

theorem indented_block_materialized_counterexample:
  "(case createProject False ''proj'' [''foo.cpp'', ''    a'', ''  '', ''    b''] fresh of
      Inr (ok, s) \<Rightarrow> files (fsys s) ''foo.cpp''
    | Inl e \<Rightarrow> None) = Some (''a'' @ [nl] @ ''  '' @ [nl] @ ''b'' @ [nl])"
  by code_simp

subsection \<open>C6: indented runs without a caption\<close>

text \<open>An indented run that is read outside a block, after the first block, is skipped as
  long as stripping the caption candidate again and again never yields a recognised
  name: nothing is opened, written or recorded, only the candidate is stripped once per
  line.\<close>

lemma uncaptioned_run_skipped:
  assumes "\<not> inIndentedFile s" and "\<not> inDelimitedFile s" and "\<not> firstFile s"
    and "list_all (\<lambda>l. isNonEmptyIndented (replaceLeadingTabs l)) ls"
    and "\<forall>k. 0 < k \<and> k \<le> length ls \<longrightarrow>
           \<not> isSourceExtension (extension ((trimExtras ^^ k) (prevline s)))"
  shows "run ow s ls = Inr (s\<lparr> prevline := (trimExtras ^^ length ls) (prevline s) \<rparr>)"
  using assms
proof (induction ls arbitrary: s)
  case Nil
  then show ?case by simp
next
  case (Cons a ls)
  let ?s1 = "s\<lparr> prevline := trimExtras (prevline s) \<rparr>"
  from Cons.prems(5) have "\<not> isSourceExtension (extension ((trimExtras ^^ 1) (prevline s)))"
    by (metis One_nat_def le_add1 length_Cons less_numeral_extra(1) plus_1_eq_Suc)
  then have sf: "isSourceFilename (prevline s) = (False, trimExtras (prevline s))"
    by (simp add: isSourceFilename_def Let_def)
  from Cons.prems(4) have ne: "isNonEmptyIndented (replaceLeadingTabs a)" by simp
  have 1: "step ow s a = Inr ?s1"
    using Cons.prems(1-3) ne nonEmptyIndented_not_delimited[OF ne]
    by (simp add: step_def Let_def sf)
  have "\<forall>k. 0 < k \<and> k \<le> length ls \<longrightarrow>
           \<not> isSourceExtension (extension ((trimExtras ^^ k) (prevline ?s1)))"
  proof (intro allI impI)
    fix k assume "0 < k \<and> k \<le> length ls"
    then have "0 < Suc k \<and> Suc k \<le> length (a # ls)" by simp
    with Cons.prems(5) have "\<not> isSourceExtension (extension ((trimExtras ^^ Suc k) (prevline s)))"
      by blast
    then show "\<not> isSourceExtension (extension ((trimExtras ^^ k) (prevline ?s1)))"
      by (simp add: funpow_swap1)
  qed
  with Cons.IH[of ?s1] Cons.prems(1-4)
  have "run ow ?s1 ls = Inr (?s1\<lparr> prevline := (trimExtras ^^ length ls) (prevline ?s1) \<rparr>)"
    by simp
  with 1 show ?case by (simp add: funpow_swap1)
qed

text \<open>Claim C6 says that every indented run that is not the first block and does not
  follow a recognised filename caption is skipped entirely. The code misses this on one
  path. \<open>isSourceFilename\<close> strips the remembered candidate in place each time it is
  asked, and stripping is not idempotent: the candidate \<open>foo.cpp*"\<close> is not
  recognised when the first line of an indented run asks (it becomes \<open>foo.cpp*\<close>),
  but the second line of the same run asks again, the candidate becomes \<open>foo.cpp\<close>,
  and a block is opened in the middle of the run. In the document below a fenced block
  comes first; of the indented run after the caption the line \<open>a\<close> is skipped, the
  line \<open>b\<close> is written to \<open>foo.cpp\<close>, and that name is recorded.\<close>

theorem restripped_caption_opens_block:
  "\<not> fst (isSourceFilename (''foo.cpp*'' @ [dquote])) \<and>
   (case createProject False ''proj''
           [fence3, fence3, ''foo.cpp*'' @ [dquote], ''    a'', ''    b''] fresh of
      Inr (ok, s) \<Rightarrow> (srcnames s, files (fsys s) ''foo.cpp'')
    | Inl e \<Rightarrow> ([], None)) = ([''main.cpp'', ''foo.cpp''], Some (''b'' @ [nl]))"
  by code_simp

subsection \<open>C7: an existing project directory\<close>

lemma step_first_opener_exists:
  assumes "\<not> inIndentedFile s" and "\<not> inDelimitedFile s" and "firstFile s"
    and "root_exists (fsys s)" and "\<not> quiet line"
  shows "step False s line = Inl (AlreadyExists, fsys s)"
proof -
  have ft: "firstTree False (s\<lparr>prevline := p\<rparr>) = Inl (AlreadyExists, fsys s)" for p
    using assms(3,4) by (simp add: firstTree_def makeTree_def)
  from assms(5) consider "isDelimited (replaceLeadingTabs line)"
    | "\<not> isDelimited (replaceLeadingTabs line)" "isNonEmptyIndented (replaceLeadingTabs line)"
    by (auto simp: quiet_def)
  then show ?thesis
  proof cases
    case 1
    with assms(1,2) show ?thesis
      by (simp add: step_def Let_def ft split: prod.splits)
  next
    case 2
    with assms(1,2,3) isNonEmptyIndented_not_Nil[OF 2(2)] show ?thesis
      by (simp add: step_def Let_def ft split: prod.splits)
  qed
qed

lemma run_first_opener_exists:
  assumes "root_exists f" and "\<not> list_all quiet doc"
  shows "run False (init pname f) doc = Inl (AlreadyExists, f)"
proof -
  from assms(2) have "\<exists>l \<in> set doc. \<not> quiet l" by (simp add: list_all_iff)
  from split_list_first_prop[OF this]
  obtain pre l post where doc: "doc = pre @ l # post" and l: "\<not> quiet l"
    and pre: "\<forall>y \<in> set pre. \<not> \<not> quiet y"
    by blast
  let ?s = "(init pname f)\<lparr> prevline := fold remember pre (prevline (init pname f)) \<rparr>"
  have "run False (init pname f) pre = Inr ?s"
    using pre by (intro run_quiet) (simp_all add: init_def list_all_iff)
  moreover have "step False ?s l = Inl (AlreadyExists, fsys ?s)"
    using assms(1) l by (intro step_first_opener_exists) (simp_all add: init_def)
  ultimately show ?thesis
    by (simp add: doc run_append init_def)
qed

lemma firstTree_tree_made:
  assumes "firstTree ow s = Inr s1" and "\<not> firstFile s \<longrightarrow> root_exists (fsys s)"
  shows "\<not> firstFile s1 \<and> root_exists (fsys s1)"
  using assms by (auto simp: firstTree_def split: if_splits sum.splits dest: makeTree_root)

lemma open_delimited_tree_made:
  "\<not> firstFile s \<Longrightarrow> root_exists (fsys s) \<Longrightarrow> tree_made (open_delimited p s)"
  by (simp add: tree_made_def open_delimited_def open_srcfile_def)

lemma open_indented_tree_made:
  "\<not> firstFile s \<Longrightarrow> root_exists (fsys s) \<Longrightarrow> tree_made (open_indented p l s)"
  by (simp add: tree_made_def open_indented_def open_srcfile_def emit_def)

lemma step_tree_made:
  assumes "tree_made s" and "step ow s line = Inr s'"
  shows "tree_made s'"
proof -
  have pl: "tree_made (s\<lparr>prevline := p\<rparr>)" for p
    using assms(1) by (simp add: tree_made_def)
  have opened: "tree_made (open_delimited p s1) \<and> tree_made (open_indented p l s1)"
    if "firstTree ow (s\<lparr>prevline := q\<rparr>) = Inr s1" for p q l s1
  proof -
    have "\<not> firstFile s1 \<and> root_exists (fsys s1)"
      using firstTree_tree_made[OF that] assms(1) by (simp add: tree_made_def)
    then show ?thesis
      by (simp add: open_delimited_tree_made open_indented_tree_made)
  qed
  have wr: "tree_made (write_out t (checkRules l s))" for t l
    using assms(1) by (simp add: tree_made_def)
  have cl: "tree_made ((close_srcfile (s\<lparr>prevline := p\<rparr>))\<lparr>inIndentedFile := b\<rparr>)"
    "tree_made ((close_srcfile (s\<lparr>prevline := p\<rparr>))\<lparr>inDelimitedFile := b\<rparr>)" for p b
    using assms(1) by (simp_all add: tree_made_def close_srcfile_def)
  from assms show ?thesis
    by (auto simp: step_def Let_def opened pl wr cl emit_def emitVerbatim_def
        split: if_splits prod.splits sum.splits)
qed

lemma run_tree_made:
  "tree_made s \<Longrightarrow> run ow s doc = Inr s' \<Longrightarrow> tree_made s'"
  by (induction doc arbitrary: s) (auto split: sum.splits dest: step_tree_made)

lemma finish_root:
  assumes "finish doc s = Inr (True, s')" and "tree_made s"
  shows "root_exists (fsys s')"
  using assms
  by (auto simp: finish_def Let_def writeSrcLevel_def writeTopLevel_def copy_md_def
        close_srcfile_def tree_made_def split: if_splits sum.splits)

text \<open>Claim C7. When the project root exists and overwriting is not allowed,
  \<open>createProject\<close> fails with the pre-existing-output error at the first line that
  tries to open a block, and the file system it leaves is the one it found: no directory
  was created, no file opened or written. (A document in which no line tries to open a
  block raises nothing and changes nothing.) Hence a second run on the input of a
  successful first run, with overwriting disabled, fails and leaves the output of the
  first run as it is.\<close>

theorem existing_output_refused:
  "(root_exists f \<longrightarrow> \<not> list_all quiet doc \<longrightarrow>
      createProject False pname doc f = Inl (AlreadyExists, f)) \<and>
   (root_exists f \<longrightarrow> list_all quiet doc \<longrightarrow>
      (\<exists>s. createProject False pname doc f = Inr (False, s) \<and> fsys s = f)) \<and>
   (createProject ow pname doc f = Inr (True, s1) \<longrightarrow>
      createProject False pname doc (fsys s1) = Inl (AlreadyExists, fsys s1))"
proof (intro conjI impI)
  assume "root_exists f" "\<not> list_all quiet doc"
  then show "createProject False pname doc f = Inl (AlreadyExists, f)"
    by (simp add: createProject_def run_first_opener_exists)
next
  assume "list_all quiet doc"
  from createProject_quiet[OF this, of False pname f]
  show "\<exists>s. createProject False pname doc f = Inr (False, s) \<and> fsys s = f" by blast
next
  assume first: "createProject ow pname doc f = Inr (True, s1)"
  have nq: "\<not> list_all quiet doc"
  proof
    assume "list_all quiet doc"
    from createProject_quiet[OF this, of ow pname f] first show False by auto
  qed
  from first obtain s where r: "run ow (init pname f) doc = Inr s"
    and fin: "finish doc s = Inr (True, s1)"
    by (auto simp: createProject_def split: sum.splits)
  have "tree_made (init pname f)" by (simp add: tree_made_def init_def)
  from run_tree_made[OF this r] have "tree_made s" .
  with fin have "root_exists (fsys s1)" by (rule finish_root)
  with nq show "createProject False pname doc (fsys s1) = Inl (AlreadyExists, fsys s1)"
    by (simp add: createProject_def run_first_opener_exists)
qed

theorem existing_output_refused_witness:
  "root_exists (fresh\<lparr> root_exists := True \<rparr>) \<and>
   \<not> list_all quiet [fence3, ''a'', fence3] \<and>
   createProject False ''proj'' [fence3, ''a'', fence3] (fresh\<lparr> root_exists := True \<rparr>) =
     Inl (AlreadyExists, fresh\<lparr> root_exists := True \<rparr>) \<and>
   (\<exists>s1. createProject False ''proj'' [fence3, ''a'', fence3] fresh = Inr (True, s1) \<and>
      createProject False ''proj'' [fence3, ''a'', fence3] (fsys s1) =
        Inl (AlreadyExists, fsys s1))"
proof -
  let ?doc = "[fence3, ''a'', fence3]"
  let ?f = "fresh\<lparr> root_exists := True \<rparr>"
  have a: "root_exists ?f" by simp
  have b: "\<not> list_all quiet ?doc" by code_simp
  have "case createProject False ''proj'' ?doc fresh of
          Inr (ok, s) \<Rightarrow> ok | Inl e \<Rightarrow> False"
    by code_simp
  then obtain s1 where c: "createProject False ''proj'' ?doc fresh = Inr (True, s1)"
    by (cases "createProject False ''proj'' ?doc fresh") auto
  from existing_output_refused[of ?f ?doc "''proj''"] a b
  have d: "createProject False ''proj'' ?doc ?f = Inl (AlreadyExists, ?f)" by blast
  from existing_output_refused[of fresh ?doc "''proj''" False s1] c
  have "createProject False ''proj'' ?doc (fsys s1) = Inl (AlreadyExists, fsys s1)" by blast
  with a b c d show ?thesis by blast
qed

subsection \<open>C8: at most one block is open\<close>

lemma open_delimited_one_block:
  "one_block s \<Longrightarrow> \<not> inIndentedFile s \<Longrightarrow> \<not> inDelimitedFile s \<Longrightarrow> one_block (open_delimited p s)"
  by (simp add: one_block_def open_delimited_def open_srcfile_def)

lemma open_indented_one_block:
  "one_block s \<Longrightarrow> \<not> inIndentedFile s \<Longrightarrow> \<not> inDelimitedFile s \<Longrightarrow> one_block (open_indented p l s)"
  by (simp add: one_block_def open_indented_def open_srcfile_def emit_def)

lemma firstTree_one_block:
  assumes "firstTree ow s = Inr s1"
  shows "one_block s1 = one_block s"
  using firstTree_fields[OF assms] by (simp add: one_block_def)

lemma step_one_block:
  assumes "one_block s" and "step ow s line = Inr s'"
  shows "one_block s'"
proof -
  let ?l = "replaceLeadingTabs line"
  consider (ind) "inIndentedFile s" | (del) "\<not> inIndentedFile s" "inDelimitedFile s"
    | (out) "\<not> inIndentedFile s" "\<not> inDelimitedFile s" by blast
  then show ?thesis
  proof cases
    case ind
    with assms show ?thesis
      by (auto simp: step_def Let_def one_block_def close_srcfile_def emit_def split: if_splits)
  next
    case del
    with assms show ?thesis
      by (auto simp: step_def Let_def one_block_def close_srcfile_def emitVerbatim_def split: if_splits)
  next
    case out
    with assms(1) have ob: "\<And>p. one_block (s\<lparr>prevline := p\<rparr>)"
      by (simp add: one_block_def)
    have opened: "one_block (open_delimited p s1) \<and> one_block (open_indented p l s1)"
      if "firstTree ow (s\<lparr>prevline := q\<rparr>) = Inr s1" for p q l s1
      using firstTree_fields[OF that] firstTree_one_block[OF that] ob out
      by (simp add: open_delimited_one_block open_indented_one_block)
    from assms out show ?thesis
      by (auto simp: step_def Let_def opened ob split: if_splits prod.splits sum.splits)
  qed
qed

lemma run_one_block:
  "one_block s \<Longrightarrow> run ow s doc = Inr s' \<Longrightarrow> one_block s'"
  by (induction doc arbitrary: s) (auto split: sum.splits dest: step_one_block)

lemma init_one_block: "one_block (init pname f)"
  by (simp add: one_block_def init_def)

text \<open>Claim C8. At every point of the scan at most one block is open: the scanner is
  never in the indented and the delimited state at once, and the single output stream
  is open exactly while one of the two flags is set. The invariant holds for the
  initial state, is preserved by every per-line transition, and so holds after any
  prefix of any document.\<close>

theorem one_block_invariant:
  "one_block (init pname f) \<and>
   (\<forall>ow s line s'. one_block s \<longrightarrow> step ow s line = Inr s' \<longrightarrow> one_block s') \<and>
   (\<forall>ow doc s'. run ow (init pname f) doc = Inr s' \<longrightarrow> one_block s')"
  using init_one_block step_one_block run_one_block by blast

theorem one_block_invariant_witness:
  "one_block (init ''proj'' fresh) \<and>
   (case run False (init ''proj'' fresh) [fence3, ''a''] of
      Inr s \<Rightarrow> one_block s \<and> inDelimitedFile s
    | Inl e \<Rightarrow> False)"
proof -
  have "case run False (init ''proj'' fresh) [fence3, ''a''] of
          Inr s \<Rightarrow> inDelimitedFile s | Inl e \<Rightarrow> False"
    by code_simp
  then obtain s where r: "run False (init ''proj'' fresh) [fence3, ''a''] = Inr s"
    and d: "inDelimitedFile s"
    by (cases "run False (init ''proj'' fresh) [fence3, ''a'']") auto
  from one_block_invariant[of "''proj''" fresh] r
  have "one_block (init ''proj'' fresh)" and "one_block s" by blast+
  with r d show ?thesis by simp
qed

subsection \<open>C9: the default file name\<close>



subsection \<open>C10: recognised source filenames\<close>



end
